theory Spec2Isabelle
  imports Complex_Main
begin

section \<open>Line integral convolution: the kernel of \<open>lic.py\<close>\<close>

text \<open>
  The theory embeds the three functions of \<^verbatim>\<open>src/line_integral_convolutions/lic.py\<close>
  that make up the convolution kernel: \<^verbatim>\<open>taper_pixel_contribution\<close>,
  \<^verbatim>\<open>advect_streamline\<close> and \<^verbatim>\<open>_compute_lic\<close>. Of the wrapper \<^verbatim>\<open>compute_lic\<close>, which
  checks the shapes, draws the default scalar field and allocates the output, the theory
  keeps what the kernel relies on: the shapes it asserts and the buffer of zeros it passes.

  Numbers. The source computes in IEEE double precision and stores the output in single
  precision. The theory reads it twice. The first reading takes every floating-point
  quantity as a \<^typ>\<open>real\<close>: it is the algorithm in exact arithmetic, with \<^verbatim>\<open>np.inf\<close>, the
  only non-finite value the source writes down itself, as a constructor of its own type.
  The second reading, \<open>The kernel in double precision\<close> below, rounds every operation to
  the nearest double, overflows to an infinity and propagates NaN as the machine does; it
  is the one that decides what the program does where a quotient or a sum leaves the range
  of the format. Neither reading has signed zeros or the 64-bit range of the integers.
  Python integers are \<^typ>\<open>int\<close>; array extents are \<^typ>\<open>nat\<close>.

  Failures. The functions are read as Python: an index outside an axis raises
  \<^verbatim>\<open>IndexError\<close> (a negative index counts from the end of the axis first), and a division or
  a modulo by zero raises \<^verbatim>\<open>ZeroDivisionError\<close>. Each is a value \<open>Inl e\<close> of the result, so
  that "the call returns" is a statement of its own: the result is some \<open>Inr v\<close>.
\<close>

subsection \<open>Errors, arrays and arithmetic that can fail\<close>

datatype error = IndexError | ZeroDivisionError | NonFinite

text \<open>
  A NumPy array is its shape together with its elements. Elements are addressed by natural
  numbers below the extents; what the element function says elsewhere is never read.
\<close>

record array2 =
  shape2 :: "nat \<times> nat"
  data2 :: "nat \<Rightarrow> nat \<Rightarrow> real"

record array3 =
  shape3 :: "nat \<times> nat \<times> nat"
  data3 :: "nat \<Rightarrow> nat \<Rightarrow> nat \<Rightarrow> real"

text \<open>One index along one axis of extent \<open>n\<close>: \<^verbatim>\<open>a[i]\<close> with Python's wrap of negatives.\<close>

definition norm_index :: "nat \<Rightarrow> int \<Rightarrow> error + nat" where
  "norm_index n i =
     (let j = (if i < 0 then int n + i else i)
      in if 0 \<le> j \<and> j < int n then Inr (nat j) else Inl IndexError)"

text \<open>\<^verbatim>\<open>a[i, j]\<close> and \<^verbatim>\<open>a[k, i, j]\<close>.\<close>

definition getitem2 :: "array2 \<Rightarrow> int \<Rightarrow> int \<Rightarrow> error + real" where
  "getitem2 a i j =
     (case norm_index (fst (shape2 a)) i of Inl e \<Rightarrow> Inl e | Inr i' \<Rightarrow>
      case norm_index (snd (shape2 a)) j of Inl e \<Rightarrow> Inl e | Inr j' \<Rightarrow>
      Inr (data2 a i' j'))"

definition getitem3 :: "array3 \<Rightarrow> int \<Rightarrow> int \<Rightarrow> int \<Rightarrow> error + real" where
  "getitem3 a k i j =
     (case norm_index (fst (shape3 a)) k of Inl e \<Rightarrow> Inl e | Inr k' \<Rightarrow>
      case norm_index (fst (snd (shape3 a))) i of Inl e \<Rightarrow> Inl e | Inr i' \<Rightarrow>
      case norm_index (snd (snd (shape3 a))) j of Inl e \<Rightarrow> Inl e | Inr j' \<Rightarrow>
      Inr (data3 a k' i' j'))"

text \<open>\<^verbatim>\<open>a[i, j] = v\<close>: the array with one element replaced.\<close>

definition setitem2 :: "array2 \<Rightarrow> int \<Rightarrow> int \<Rightarrow> real \<Rightarrow> error + array2" where
  "setitem2 a i j v =
     (case norm_index (fst (shape2 a)) i of Inl e \<Rightarrow> Inl e | Inr i' \<Rightarrow>
      case norm_index (snd (shape2 a)) j of Inl e \<Rightarrow> Inl e | Inr j' \<Rightarrow>
      Inr (a\<lparr>data2 := \<lambda>r c. if r = i' \<and> c = j' then v else data2 a r c\<rparr>))"

text \<open>\<^verbatim>\<open>x / y\<close> and \<^verbatim>\<open>x % y\<close> on floats; the remainder takes the sign of the divisor.\<close>

definition py_truediv :: "real \<Rightarrow> real \<Rightarrow> error + real" where
  "py_truediv x y = (if y = 0 then Inl ZeroDivisionError else Inr (x / y))"

definition py_fmod :: "real \<Rightarrow> real \<Rightarrow> error + real" where
  "py_fmod x y =
     (if y = 0 then Inl ZeroDivisionError else Inr (x - y * of_int \<lfloor>x / y\<rfloor>))"

text \<open>A crossing time: a real number or \<^verbatim>\<open>np.inf\<close>.\<close>

datatype etime = Finite real | Infinity

text \<open>Python's \<^verbatim>\<open>min(a, b)\<close>: the first argument unless the second is smaller.\<close>

fun etime_less :: "etime \<Rightarrow> etime \<Rightarrow> bool" where
  "etime_less (Finite x) (Finite y) = (x < y)"
| "etime_less (Finite x) Infinity = True"
| "etime_less Infinity b = False"

definition py_min :: "etime \<Rightarrow> etime \<Rightarrow> etime" where
  "py_min a b = (if etime_less b a then b else a)"

subsection \<open>The weighting function\<close>

text \<open>
  \<^verbatim>\<open>taper_pixel_contribution(streamlength, step_index)\<close>, line 21:
  \<^verbatim>\<open>0.5 * (1 + np.cos(np.pi * step_index / streamlength))\<close>.
\<close>

definition taper_pixel_contribution :: "int \<Rightarrow> int \<Rightarrow> error + real" where
  "taper_pixel_contribution streamlength step_index =
     (case py_truediv (pi * of_int step_index) (of_int streamlength) of
        Inl e \<Rightarrow> Inl e
      | Inr q \<Rightarrow> Inr (0.5 * (1 + cos q)))"

subsection \<open>One streamline\<close>

text \<open>The variables of the loop of \<^verbatim>\<open>advect_streamline\<close>.\<close>

record streamline_state =
  row_float :: real
  col_float :: real
  weighted_sum :: real
  total_weight :: real

text \<open>How one pass through the loop body ends: at a \<^verbatim>\<open>break\<close>, or at its last line.\<close>

datatype loop_exit = Break streamline_state | Next streamline_state

fun exit_state :: "loop_exit \<Rightarrow> streamline_state" where
  "exit_state (Break st) = st"
| "exit_state (Next st) = st"

text \<open>
  Lines 41 and 42: the velocity at a cell, as the pair \<open>(vel_col, vel_row)\<close>, in the order
  the source reads it.
\<close>

definition cell_velocity :: "array3 \<Rightarrow> int \<Rightarrow> int \<Rightarrow> int \<Rightarrow> error + (real \<times> real)" where
  "cell_velocity vfield dir_sgn row_int col_int =
     (case getitem3 vfield 0 row_int col_int of Inl e \<Rightarrow> Inl e | Inr v0 \<Rightarrow>
      case getitem3 vfield 1 row_int col_int of Inl e \<Rightarrow> Inl e | Inr v1 \<Rightarrow>
      Inr (of_int dir_sgn * v0, of_int dir_sgn * v1))"

text \<open>
  Lines 47 to 52 for the row axis and 53 to 58 for the column axis: the same three-way branch,
  written once here and used for both.
\<close>

definition delta_time :: "real \<Rightarrow> real \<Rightarrow> error + etime" where
  "delta_time pos vel =
     (if vel > 0 then
        (case py_truediv (of_int \<lfloor>pos\<rfloor> + 1 - pos) vel of
           Inl e \<Rightarrow> Inl e | Inr t \<Rightarrow> Inr (Finite t))
      else if vel < 0 then
        (case py_truediv (of_int \<lceil>pos\<rceil> - 1 - pos) vel of
           Inl e \<Rightarrow> Inl e | Inr t \<Rightarrow> Inr (Finite t))
      else Inr Infinity)"

text \<open>
  Lines 47 to 63: the two crossing times, their minimum, and the advanced position
  \<open>(row_float, col_float)\<close>. A product with \<^verbatim>\<open>np.inf\<close> has no real value and is the
  failure \<open>NonFinite\<close>; the test of line 44 keeps the loop away from it.
\<close>

definition advance_position :: "real \<Rightarrow> real \<Rightarrow> real \<Rightarrow> real \<Rightarrow> error + (real \<times> real)" where
  "advance_position row col vel_row vel_col =
     (case delta_time row vel_row of Inl e \<Rightarrow> Inl e | Inr delta_time_row \<Rightarrow>
      case delta_time col vel_col of Inl e \<Rightarrow> Inl e | Inr delta_time_col \<Rightarrow>
      case py_min delta_time_col delta_time_row of
        Infinity \<Rightarrow> Inl NonFinite
      | Finite time_step \<Rightarrow> Inr (row + vel_row * time_step, col + vel_col * time_step))"

text \<open>
  Lines 64 to 70: the boundary conditions. \<open>None\<close> is the \<^verbatim>\<open>break\<close> of line 70.
\<close>

definition apply_boundary ::
  "bool \<Rightarrow> nat \<Rightarrow> nat \<Rightarrow> real \<Rightarrow> real \<Rightarrow> error + (real \<times> real) option" where
  "apply_boundary bool_periodic_BCs num_rows num_cols row col =
     (if bool_periodic_BCs then
        (case py_fmod (row + of_nat num_rows) (of_nat num_rows) of Inl e \<Rightarrow> Inl e | Inr row' \<Rightarrow>
         case py_fmod (col + of_nat num_cols) (of_nat num_cols) of Inl e \<Rightarrow> Inl e | Inr col' \<Rightarrow>
         Inr (Some (row', col')))
      else if \<not> ((0 \<le> row \<and> row < of_nat num_rows) \<and> (0 \<le> col \<and> col < of_nat num_cols))
        then Inr None
      else Inr (Some (row, col)))"

text \<open>The loop body, lines 39 to 74, for the iteration \<open>step\<close> entered in state \<open>st\<close>.\<close>

definition advect_body ::
  "array3 \<Rightarrow> array2 \<Rightarrow> int \<Rightarrow> int \<Rightarrow> bool \<Rightarrow> int \<Rightarrow> streamline_state \<Rightarrow> error + loop_exit" where
  "advect_body vfield sfield_in dir_sgn streamlength bool_periodic_BCs step st =
     (let num_rows = fst (snd (shape3 vfield));
          num_cols = snd (snd (shape3 vfield));
          row_int = \<lfloor>row_float st\<rfloor>;
          col_int = \<lfloor>col_float st\<rfloor>
      in
      case cell_velocity vfield dir_sgn row_int col_int of Inl e \<Rightarrow> Inl e
      | Inr (vel_col, vel_row) \<Rightarrow>
      if \<bar>vel_row\<bar> = 0 \<and> \<bar>vel_col\<bar> = 0 then Inr (Break st)
      else
      case advance_position (row_float st) (col_float st) vel_row vel_col of Inl e \<Rightarrow> Inl e
      | Inr (row1, col1) \<Rightarrow>
      case apply_boundary bool_periodic_BCs num_rows num_cols row1 col1 of Inl e \<Rightarrow> Inl e
      | Inr None \<Rightarrow> Inr (Break (st\<lparr>row_float := row1, col_float := col1\<rparr>))
      | Inr (Some (row2, col2)) \<Rightarrow>
      case taper_pixel_contribution streamlength step of Inl e \<Rightarrow> Inl e
      | Inr contribution_weight \<Rightarrow>
      case getitem2 sfield_in row_int col_int of Inl e \<Rightarrow> Inl e
      | Inr s \<Rightarrow>
      Inr (Next \<lparr>row_float = row2, col_float = col2,
                 weighted_sum = weighted_sum st + contribution_weight * s,
                 total_weight = total_weight st + contribution_weight\<rparr>))"

text \<open>
  \<^verbatim>\<open>for step in range(streamlength)\<close>: the loop from iteration \<open>step\<close> on, returning the
  variables as the loop leaves them.
\<close>

function advect_loop ::
  "array3 \<Rightarrow> array2 \<Rightarrow> int \<Rightarrow> int \<Rightarrow> bool \<Rightarrow> int \<Rightarrow> streamline_state \<Rightarrow> error + streamline_state" where
  "advect_loop vfield sfield_in dir_sgn streamlength bool_periodic_BCs step st =
     (if step < streamlength then
        (case advect_body vfield sfield_in dir_sgn streamlength bool_periodic_BCs step st of
           Inl e \<Rightarrow> Inl e
         | Inr (Break st') \<Rightarrow> Inr st'
         | Inr (Next st') \<Rightarrow>
             advect_loop vfield sfield_in dir_sgn streamlength bool_periodic_BCs (step + 1) st')
      else Inr st)"
  by pat_completeness auto
termination
  by (relation "measure (\<lambda>(vfield, sfield_in, dir_sgn, streamlength, per, step, st).
        nat (streamlength - step))") auto

text \<open>Lines 34 to 36: the variables before the first iteration.\<close>

definition initial_state :: "int \<Rightarrow> int \<Rightarrow> streamline_state" where
  "initial_state start_row start_col =
     \<lparr>row_float = of_int start_row, col_float = of_int start_col,
      weighted_sum = 0, total_weight = 0\<rparr>"

text \<open>\<^verbatim>\<open>advect_streamline\<close>: the pair \<open>(weighted_sum, total_weight)\<close> of line 75.\<close>

definition advect_streamline ::
  "array3 \<Rightarrow> array2 \<Rightarrow> int \<Rightarrow> int \<Rightarrow> int \<Rightarrow> int \<Rightarrow> bool \<Rightarrow> error + (real \<times> real)" where
  "advect_streamline vfield sfield_in start_row start_col dir_sgn streamlength bool_periodic_BCs =
     (case advect_loop vfield sfield_in dir_sgn streamlength bool_periodic_BCs 0
             (initial_state start_row start_col) of
        Inl e \<Rightarrow> Inl e
      | Inr st \<Rightarrow> Inr (weighted_sum st, total_weight st))"


text \<open>
  Both equations mention their own left-hand side; proofs unfold them one step at a time.
\<close>

declare advect_loop.simps [simp del]

subsection \<open>The driver\<close>

text \<open>
  Lines 90 to 113 without the store: the value \<^verbatim>\<open>_compute_lic\<close> computes for the pixel
  \<open>(row, col)\<close>.
\<close>

definition lic_pixel :: "array3 \<Rightarrow> array2 \<Rightarrow> int \<Rightarrow> bool \<Rightarrow> int \<Rightarrow> int \<Rightarrow> error + real" where
  "lic_pixel vfield sfield_in streamlength bool_periodic_BCs row col =
     (case advect_streamline vfield sfield_in row col 1 streamlength bool_periodic_BCs of
        Inl e \<Rightarrow> Inl e
      | Inr (forward_sum, forward_total) \<Rightarrow>
      case advect_streamline vfield sfield_in row col (- 1) streamlength bool_periodic_BCs of
        Inl e \<Rightarrow> Inl e
      | Inr (backward_sum, backward_total) \<Rightarrow>
      let total_sum = forward_sum + backward_sum;
          total_weight = forward_total + backward_total
      in if total_weight > 0 then py_truediv total_sum total_weight else Inr 0)"

text \<open>The body of the two loops for one pixel: the value, stored into \<^verbatim>\<open>sfield_out\<close>.\<close>

definition pixel_task ::
  "array3 \<Rightarrow> array2 \<Rightarrow> int \<Rightarrow> bool \<Rightarrow> int \<times> int \<Rightarrow> array2 \<Rightarrow> error + array2" where
  "pixel_task vfield sfield_in streamlength bool_periodic_BCs task sfield_out =
     (case lic_pixel vfield sfield_in streamlength bool_periodic_BCs (fst task) (snd task) of
        Inl e \<Rightarrow> Inl e
      | Inr v \<Rightarrow> setitem2 sfield_out (fst task) (snd task) v)"

text \<open>Pixel tasks run one after the other in a given order, up to the first failure.\<close>

fun run_tasks ::
  "array3 \<Rightarrow> array2 \<Rightarrow> int \<Rightarrow> bool \<Rightarrow> (int \<times> int) list \<Rightarrow> array2 \<Rightarrow> error + array2" where
  "run_tasks vfield sfield_in streamlength bool_periodic_BCs [] sfield_out = Inr sfield_out"
| "run_tasks vfield sfield_in streamlength bool_periodic_BCs (task # tasks) sfield_out =
     (case pixel_task vfield sfield_in streamlength bool_periodic_BCs task sfield_out of
        Inl e \<Rightarrow> Inl e
      | Inr sfield_out' \<Rightarrow>
          run_tasks vfield sfield_in streamlength bool_periodic_BCs tasks sfield_out')"

text \<open>
  \<^verbatim>\<open>_compute_lic\<close> (an Isabelle name cannot start with an underscore). The two nested loops,
  \<^verbatim>\<open>for row in prange(num_rows)\<close> and \<^verbatim>\<open>for col in range(num_cols)\<close>, run in program
  order: the pixels row by row, which is the order of \<^const>\<open>List.product\<close>.
\<close>

definition compute_lic_kernel ::
  "array3 \<Rightarrow> array2 \<Rightarrow> array2 \<Rightarrow> int \<Rightarrow> int \<Rightarrow> int \<Rightarrow> bool \<Rightarrow> error + array2" where
  "compute_lic_kernel vfield sfield_in sfield_out streamlength num_rows num_cols bool_periodic_BCs =
     run_tasks vfield sfield_in streamlength bool_periodic_BCs
       (List.product [0..num_rows - 1] [0..num_cols - 1]) sfield_out"

subsection \<open>Well-formed inputs\<close>

text \<open>
  What \<^verbatim>\<open>compute_lic\<close> asserts before it calls the kernel: the vector field has two
  components over an \<open>R \<times> C\<close> grid and the scalar field has the shape of the grid.
\<close>

definition well_formed :: "array3 \<Rightarrow> array2 \<Rightarrow> nat \<Rightarrow> nat \<Rightarrow> bool" where
  "well_formed vfield sfield_in R C \<longleftrightarrow> shape3 vfield = (2, R, C) \<and> shape2 sfield_in = (R, C)"

text \<open>A position inside the domain \<open>[0,R) \<times> [0,C)\<close>.\<close>

definition inside :: "nat \<Rightarrow> nat \<Rightarrow> streamline_state \<Rightarrow> bool" where
  "inside R C st \<longleftrightarrow>
     0 \<le> row_float st \<and> row_float st < of_nat R \<and> 0 \<le> col_float st \<and> col_float st < of_nat C"

text \<open>The streamline has stalled in a state: both velocity components of its cell are zero.\<close>

definition stalled :: "array3 \<Rightarrow> int \<Rightarrow> streamline_state \<Rightarrow> bool" where
  "stalled vfield dir_sgn st \<longleftrightarrow>
     cell_velocity vfield dir_sgn \<lfloor>row_float st\<rfloor> \<lfloor>col_float st\<rfloor> = Inr (0, 0)"


text \<open>The values a scalar field takes on its grid.\<close>

definition array2_values :: "array2 \<Rightarrow> real set" where
  "array2_values a = (\<lambda>(r, c). data2 a r c) ` ({..<fst (shape2 a)} \<times> {..<snd (shape2 a)})"

subsection \<open>Example inputs\<close>

text \<open>
  The scenario of the specification: a uniform rightward vector field (component 0 is 1 and
  component 1 is 0 everywhere) on a \<open>4 \<times> 4\<close> grid, with the scalar field
  \<open>sfield_in[r][c] = c\<close>; and the vector field that is zero everywhere.
\<close>

definition uniform_vfield :: array3 where
  "uniform_vfield = \<lparr>shape3 = (2, 4, 4), data3 = \<lambda>k r c. if k = 0 then 1 else 0\<rparr>"

definition zero_vfield :: array3 where
  "zero_vfield = \<lparr>shape3 = (2, 4, 4), data3 = \<lambda>k r c. 0\<rparr>"

definition column_sfield :: array2 where
  "column_sfield = \<lparr>shape2 = (4, 4), data2 = \<lambda>r c. of_nat c\<rparr>"

text \<open>Line 159 of \<^verbatim>\<open>compute_lic\<close>: the output buffer the kernel receives, \<^verbatim>\<open>np.zeros\<close>.\<close>

definition zeros :: "nat \<Rightarrow> nat \<Rightarrow> array2" where
  "zeros R C = \<lparr>shape2 = (R, C), data2 = \<lambda>r c. 0\<rparr>"

section \<open>The kernel in double precision\<close>

subsection \<open>Doubles and their rounding\<close>

text \<open>
  A float is a finite real, an infinity or NaN. A binary format of precision \<open>p\<close> whose
  finite values lie below \<open>2 ^ emax\<close> rounds a real to the nearest multiple of the unit in
  the last place of its binade (the least binade is that of the subnormal numbers), ties
  to the even multiple, and to an infinity when the rounded value reaches \<open>2 ^ emax\<close>.
\<close>

datatype double = Num real | PosInf | NegInf | NaN

definition round_half_even :: "real \<Rightarrow> int" where
  "round_half_even r =
     (let f = \<lfloor>r\<rfloor>; d = r - of_int f
      in if d < 1 / 2 then f else if 1 / 2 < d then f + 1 else if even f then f else f + 1)"

definition round_format :: "nat \<Rightarrow> int \<Rightarrow> real \<Rightarrow> double" where
  "round_format p emax x =
     (if x = 0 then Num 0
      else
        let e = max \<lfloor>log 2 \<bar>x\<bar>\<rfloor> (2 - emax);
            u = 2 powr of_int (e - int p + 1);
            y = of_int (round_half_even (x / u)) * u
        in if 2 powr of_int emax \<le> \<bar>y\<bar> then (if 0 < x then PosInf else NegInf) else Num y)"

definition round_double :: "real \<Rightarrow> double" where
  "round_double = round_format 53 1024"


subsection \<open>Arithmetic\<close>

text \<open>The conversion of an integer to a float.\<close>

definition fl_of_int :: "int \<Rightarrow> double" where
  "fl_of_int n = round_double (of_int n)"

text \<open>
  The arithmetic of IEEE 754: on finite operands the exact result, rounded; on infinities
  and NaN the values the standard fixes.
\<close>

fun fl_neg :: "double \<Rightarrow> double" where
  "fl_neg (Num x) = Num (- x)"
| "fl_neg PosInf = NegInf"
| "fl_neg NegInf = PosInf"
| "fl_neg NaN = NaN"

fun fl_add :: "double \<Rightarrow> double \<Rightarrow> double" where
  "fl_add (Num x) (Num y) = round_double (x + y)"
| "fl_add NaN b = NaN"
| "fl_add a NaN = NaN"
| "fl_add PosInf NegInf = NaN"
| "fl_add NegInf PosInf = NaN"
| "fl_add PosInf b = PosInf"
| "fl_add a PosInf = PosInf"
| "fl_add NegInf b = NegInf"
| "fl_add a NegInf = NegInf"

definition fl_sub :: "double \<Rightarrow> double \<Rightarrow> double" where
  "fl_sub a b = fl_add a (fl_neg b)"

text \<open>An infinity of a given sign: positive for \<open>True\<close>.\<close>

definition signed_inf :: "bool \<Rightarrow> double" where
  "signed_inf positive = (if positive then PosInf else NegInf)"

fun fl_mul :: "double \<Rightarrow> double \<Rightarrow> double" where
  "fl_mul (Num x) (Num y) = round_double (x * y)"
| "fl_mul NaN b = NaN"
| "fl_mul a NaN = NaN"
| "fl_mul PosInf (Num y) = (if y = 0 then NaN else signed_inf (0 < y))"
| "fl_mul NegInf (Num y) = (if y = 0 then NaN else signed_inf (y < 0))"
| "fl_mul (Num x) PosInf = (if x = 0 then NaN else signed_inf (0 < x))"
| "fl_mul (Num x) NegInf = (if x = 0 then NaN else signed_inf (x < 0))"
| "fl_mul PosInf PosInf = PosInf"
| "fl_mul NegInf NegInf = PosInf"
| "fl_mul PosInf NegInf = NegInf"
| "fl_mul NegInf PosInf = NegInf"

text \<open>
  \<^verbatim>\<open>x / y\<close>: a zero divisor raises \<^verbatim>\<open>ZeroDivisionError\<close>, in Python and in the default error
  model of the compiled function alike; every other division is IEEE's.
\<close>

fun ieee_div :: "double \<Rightarrow> double \<Rightarrow> double" where
  "ieee_div (Num x) (Num y) = round_double (x / y)"
| "ieee_div NaN b = NaN"
| "ieee_div a NaN = NaN"
| "ieee_div PosInf (Num y) = signed_inf (0 < y)"
| "ieee_div NegInf (Num y) = signed_inf (y < 0)"
| "ieee_div (Num x) PosInf = Num 0"
| "ieee_div (Num x) NegInf = Num 0"
| "ieee_div a b = NaN"

definition fl_div :: "double \<Rightarrow> double \<Rightarrow> error + double" where
  "fl_div a b = (if b = Num 0 then Inl ZeroDivisionError else Inr (ieee_div a b))"

text \<open>Comparisons: every comparison with NaN is false.\<close>

fun fl_less :: "double \<Rightarrow> double \<Rightarrow> bool" where
  "fl_less (Num x) (Num y) = (x < y)"
| "fl_less NaN b = False"
| "fl_less a NaN = False"
| "fl_less NegInf NegInf = False"
| "fl_less NegInf b = True"
| "fl_less PosInf b = False"
| "fl_less a PosInf = True"
| "fl_less a NegInf = False"

fun fl_le :: "double \<Rightarrow> double \<Rightarrow> bool" where
  "fl_le (Num x) (Num y) = (x \<le> y)"
| "fl_le NaN b = False"
| "fl_le a NaN = False"
| "fl_le NegInf b = True"
| "fl_le a PosInf = True"
| "fl_le PosInf b = False"
| "fl_le a NegInf = False"

fun fl_eq :: "double \<Rightarrow> double \<Rightarrow> bool" where
  "fl_eq NaN b = False"
| "fl_eq a NaN = False"
| "fl_eq a b = (a = b)"

text \<open>\<^verbatim>\<open>abs\<close>, \<^verbatim>\<open>np.floor\<close>, \<^verbatim>\<open>np.ceil\<close> and Python's \<^verbatim>\<open>min(a, b)\<close>.\<close>

fun fl_abs :: "double \<Rightarrow> double" where
  "fl_abs (Num x) = Num \<bar>x\<bar>"
| "fl_abs NaN = NaN"
| "fl_abs a = PosInf"

fun fl_floor :: "double \<Rightarrow> double" where
  "fl_floor (Num x) = Num (of_int \<lfloor>x\<rfloor>)"
| "fl_floor a = a"

fun fl_ceil :: "double \<Rightarrow> double" where
  "fl_ceil (Num x) = Num (of_int \<lceil>x\<rceil>)"
| "fl_ceil a = a"

definition fl_min :: "double \<Rightarrow> double \<Rightarrow> double" where
  "fl_min a b = (if fl_less b a then b else a)"

text \<open>
  \<^verbatim>\<open>np.cos\<close>, taken as correctly rounded (a library may be off by one unit in the last place
  away from 0, where the cosine is exactly 1), and \<^verbatim>\<open>np.pi\<close>, the double next to \<open>\<pi>\<close>.
\<close>

fun fl_cos :: "double \<Rightarrow> double" where
  "fl_cos (Num x) = round_double (cos x)"
| "fl_cos a = NaN"

definition np_pi :: double where
  "np_pi = Num (7074237752028440 / 2 ^ 51)"

text \<open>
  \<^verbatim>\<open>int(x)\<close> of a float. Python raises for an infinity and for NaN; the compiled function
  has no defined result there. Both are the failure \<open>NonFinite\<close>.
\<close>

fun fl_to_int :: "double \<Rightarrow> error + int" where
  "fl_to_int (Num x) = Inr (if 0 \<le> x then \<lfloor>x\<rfloor> else \<lceil>x\<rceil>)"
| "fl_to_int a = Inl NonFinite"

text \<open>
  \<^verbatim>\<open>x % y\<close> on floats: the exact remainder of C's \<^verbatim>\<open>fmod\<close>, which has the sign of \<open>x\<close>, moved
  by \<open>y\<close> (a rounded sum) when its sign differs from that of \<open>y\<close>.
\<close>

definition fmod_real :: "real \<Rightarrow> real \<Rightarrow> real" where
  "fmod_real x y = x - y * (sgn (x / y) * of_int \<lfloor>\<bar>x / y\<bar>\<rfloor>)"

fun python_mod :: "double \<Rightarrow> double \<Rightarrow> double" where
  "python_mod (Num x) (Num y) =
     (let m = fmod_real x y
      in if m \<noteq> 0 \<and> ((y < 0) \<noteq> (m < 0)) then round_double (m + y) else Num m)"
| "python_mod NaN b = NaN"
| "python_mod a NaN = NaN"
| "python_mod PosInf b = NaN"
| "python_mod NegInf b = NaN"
| "python_mod (Num x) PosInf = (if x < 0 then PosInf else Num x)"
| "python_mod (Num x) NegInf = (if 0 < x then NegInf else Num x)"

definition fl_mod :: "double \<Rightarrow> double \<Rightarrow> error + double" where
  "fl_mod a b = (if b = Num 0 then Inl ZeroDivisionError else Inr (python_mod a b))"


text \<open>Arrays of floats, as the arrays of reals above.\<close>

record farray2 =
  fshape2 :: "nat \<times> nat"
  fdata2 :: "nat \<Rightarrow> nat \<Rightarrow> double"

record farray3 =
  fshape3 :: "nat \<times> nat \<times> nat"
  fdata3 :: "nat \<Rightarrow> nat \<Rightarrow> nat \<Rightarrow> double"

definition fgetitem2 :: "farray2 \<Rightarrow> int \<Rightarrow> int \<Rightarrow> error + double" where
  "fgetitem2 a i j =
     (case norm_index (fst (fshape2 a)) i of Inl e \<Rightarrow> Inl e | Inr i' \<Rightarrow>
      case norm_index (snd (fshape2 a)) j of Inl e \<Rightarrow> Inl e | Inr j' \<Rightarrow>
      Inr (fdata2 a i' j'))"

definition fgetitem3 :: "farray3 \<Rightarrow> int \<Rightarrow> int \<Rightarrow> int \<Rightarrow> error + double" where
  "fgetitem3 a k i j =
     (case norm_index (fst (fshape3 a)) k of Inl e \<Rightarrow> Inl e | Inr k' \<Rightarrow>
      case norm_index (fst (snd (fshape3 a))) i of Inl e \<Rightarrow> Inl e | Inr i' \<Rightarrow>
      case norm_index (snd (snd (fshape3 a))) j of Inl e \<Rightarrow> Inl e | Inr j' \<Rightarrow>
      Inr (fdata3 a k' i' j'))"


subsection \<open>The kernel in double precision\<close>

text \<open>
  The same three functions once more, line by line as above, with every operation of the
  source carried out in floating point. An array element is read as it is stored; the
  literals \<^verbatim>\<open>0.0\<close>, \<^verbatim>\<open>0.5\<close> and \<^verbatim>\<open>1\<close> are exact.
\<close>

definition fl_taper_pixel_contribution :: "int \<Rightarrow> int \<Rightarrow> error + double" where
  "fl_taper_pixel_contribution streamlength step_index =
     (case fl_div (fl_mul np_pi (fl_of_int step_index)) (fl_of_int streamlength) of
        Inl e \<Rightarrow> Inl e
      | Inr q \<Rightarrow> Inr (fl_mul (Num (1 / 2)) (fl_add (Num 1) (fl_cos q))))"

record fl_state =
  fl_row :: double
  fl_col :: double
  fl_weighted_sum :: double
  fl_total_weight :: double

datatype fl_exit = FBreak fl_state | FNext fl_state

definition fl_cell_velocity ::
  "farray3 \<Rightarrow> int \<Rightarrow> int \<Rightarrow> int \<Rightarrow> error + (double \<times> double)" where
  "fl_cell_velocity vfield dir_sgn row_int col_int =
     (case fgetitem3 vfield 0 row_int col_int of Inl e \<Rightarrow> Inl e | Inr v0 \<Rightarrow>
      case fgetitem3 vfield 1 row_int col_int of Inl e \<Rightarrow> Inl e | Inr v1 \<Rightarrow>
      Inr (fl_mul (fl_of_int dir_sgn) v0, fl_mul (fl_of_int dir_sgn) v1))"

definition fl_delta_time :: "double \<Rightarrow> double \<Rightarrow> error + double" where
  "fl_delta_time pos vel =
     (if fl_less (Num 0) vel then
        fl_div (fl_sub (fl_add (fl_floor pos) (Num 1)) pos) vel
      else if fl_less vel (Num 0) then
        fl_div (fl_sub (fl_sub (fl_ceil pos) (Num 1)) pos) vel
      else Inr PosInf)"

definition fl_advance_position ::
  "double \<Rightarrow> double \<Rightarrow> double \<Rightarrow> double \<Rightarrow> error + (double \<times> double)" where
  "fl_advance_position row col vel_row vel_col =
     (case fl_delta_time row vel_row of Inl e \<Rightarrow> Inl e | Inr delta_time_row \<Rightarrow>
      case fl_delta_time col vel_col of Inl e \<Rightarrow> Inl e | Inr delta_time_col \<Rightarrow>
      let time_step = fl_min delta_time_col delta_time_row
      in Inr (fl_add row (fl_mul vel_row time_step), fl_add col (fl_mul vel_col time_step)))"

definition fl_apply_boundary ::
  "bool \<Rightarrow> nat \<Rightarrow> nat \<Rightarrow> double \<Rightarrow> double \<Rightarrow> error + (double \<times> double) option" where
  "fl_apply_boundary bool_periodic_BCs num_rows num_cols row col =
     (if bool_periodic_BCs then
        (case fl_mod (fl_add row (fl_of_int (int num_rows))) (fl_of_int (int num_rows)) of
           Inl e \<Rightarrow> Inl e | Inr row' \<Rightarrow>
         case fl_mod (fl_add col (fl_of_int (int num_cols))) (fl_of_int (int num_cols)) of
           Inl e \<Rightarrow> Inl e | Inr col' \<Rightarrow>
         Inr (Some (row', col')))
      else if \<not> ((fl_le (Num 0) row \<and> fl_less row (fl_of_int (int num_rows)))
                \<and> (fl_le (Num 0) col \<and> fl_less col (fl_of_int (int num_cols))))
        then Inr None
      else Inr (Some (row, col)))"

definition fl_advect_body ::
  "farray3 \<Rightarrow> farray2 \<Rightarrow> int \<Rightarrow> int \<Rightarrow> bool \<Rightarrow> int \<Rightarrow> fl_state \<Rightarrow> error + fl_exit" where
  "fl_advect_body vfield sfield_in dir_sgn streamlength bool_periodic_BCs step st =
     (let num_rows = fst (snd (fshape3 vfield));
          num_cols = snd (snd (fshape3 vfield))
      in
      case fl_to_int (fl_floor (fl_row st)) of Inl e \<Rightarrow> Inl e | Inr row_int \<Rightarrow>
      case fl_to_int (fl_floor (fl_col st)) of Inl e \<Rightarrow> Inl e | Inr col_int \<Rightarrow>
      case fl_cell_velocity vfield dir_sgn row_int col_int of Inl e \<Rightarrow> Inl e
      | Inr (vel_col, vel_row) \<Rightarrow>
      if fl_eq (fl_abs vel_row) (Num 0) \<and> fl_eq (fl_abs vel_col) (Num 0) then Inr (FBreak st)
      else
      case fl_advance_position (fl_row st) (fl_col st) vel_row vel_col of Inl e \<Rightarrow> Inl e
      | Inr (row1, col1) \<Rightarrow>
      case fl_apply_boundary bool_periodic_BCs num_rows num_cols row1 col1 of Inl e \<Rightarrow> Inl e
      | Inr None \<Rightarrow> Inr (FBreak (st\<lparr>fl_row := row1, fl_col := col1\<rparr>))
      | Inr (Some (row2, col2)) \<Rightarrow>
      case fl_taper_pixel_contribution streamlength step of Inl e \<Rightarrow> Inl e
      | Inr contribution_weight \<Rightarrow>
      case fgetitem2 sfield_in row_int col_int of Inl e \<Rightarrow> Inl e
      | Inr s \<Rightarrow>
      Inr (FNext \<lparr>fl_row = row2, fl_col = col2,
                  fl_weighted_sum = fl_add (fl_weighted_sum st) (fl_mul contribution_weight s),
                  fl_total_weight = fl_add (fl_total_weight st) contribution_weight\<rparr>))"

function fl_advect_loop ::
  "farray3 \<Rightarrow> farray2 \<Rightarrow> int \<Rightarrow> int \<Rightarrow> bool \<Rightarrow> int \<Rightarrow> fl_state \<Rightarrow> error + fl_state" where
  "fl_advect_loop vfield sfield_in dir_sgn streamlength bool_periodic_BCs step st =
     (if step < streamlength then
        (case fl_advect_body vfield sfield_in dir_sgn streamlength bool_periodic_BCs step st of
           Inl e \<Rightarrow> Inl e
         | Inr (FBreak st') \<Rightarrow> Inr st'
         | Inr (FNext st') \<Rightarrow>
             fl_advect_loop vfield sfield_in dir_sgn streamlength bool_periodic_BCs (step + 1) st')
      else Inr st)"
  by pat_completeness auto
termination
  by (relation "measure (\<lambda>(vfield, sfield_in, dir_sgn, streamlength, per, step, st).
        nat (streamlength - step))") auto

declare fl_advect_loop.simps [simp del]

definition fl_initial_state :: "int \<Rightarrow> int \<Rightarrow> fl_state" where
  "fl_initial_state start_row start_col =
     \<lparr>fl_row = fl_of_int start_row, fl_col = fl_of_int start_col,
      fl_weighted_sum = Num 0, fl_total_weight = Num 0\<rparr>"

definition fl_advect_streamline ::
  "farray3 \<Rightarrow> farray2 \<Rightarrow> int \<Rightarrow> int \<Rightarrow> int \<Rightarrow> int \<Rightarrow> bool \<Rightarrow> error + (double \<times> double)" where
  "fl_advect_streamline vfield sfield_in start_row start_col dir_sgn streamlength
     bool_periodic_BCs =
     (case fl_advect_loop vfield sfield_in dir_sgn streamlength bool_periodic_BCs 0
             (fl_initial_state start_row start_col) of
        Inl e \<Rightarrow> Inl e
      | Inr st \<Rightarrow> Inr (fl_weighted_sum st, fl_total_weight st))"





subsection \<open>Inputs at the edge of the format\<close>

text \<open>
  A velocity so small that one over it is beyond the largest double, and a sample so large
  that twice it is; both are doubles. The fields that hold them are uniform on a single
  cell, the smallest grid.
\<close>

definition tiny :: real where
  "tiny = 2 powr (- 1070)"

definition huge :: real where
  "huge = 2 powr 1023"

definition tiny_vfield :: farray3 where
  "tiny_vfield = \<lparr>fshape3 = (2, 1, 1), fdata3 = \<lambda>k r c. if k = 0 then Num tiny else Num 0\<rparr>"

definition unit_vfield :: farray3 where
  "unit_vfield = \<lparr>fshape3 = (2, 1, 1), fdata3 = \<lambda>k r c. if k = 0 then Num 1 else Num 0\<rparr>"

definition one_sfield :: farray2 where
  "one_sfield = \<lparr>fshape2 = (1, 1), fdata2 = \<lambda>r c. Num 1\<rparr>"

definition huge_sfield :: farray2 where
  "huge_sfield = \<lparr>fshape2 = (1, 1), fdata2 = \<lambda>r c. Num huge\<rparr>"


section \<open>Properties of the loop body\<close>

lemma py_fmod_range:
  assumes "0 < y"
  shows "\<exists>r. py_fmod x y = Inr r \<and> 0 \<le> r \<and> r < y"
proof -
  define f where "f = x / y - of_int \<lfloor>x / y\<rfloor>"
  have f: "0 \<le> f" "f < 1" unfolding f_def by linarith+
  have eq: "x - y * of_int \<lfloor>x / y\<rfloor> = y * f"
    using assms by (simp add: f_def algebra_simps)
  have "0 \<le> y * f" using f assms by simp
  moreover have "y * f < y * 1" using f assms by (simp only: mult_less_cancel_left_pos)
  ultimately show ?thesis using assms eq by (simp add: py_fmod_def)
qed

lemma taper_value:
  "streamlength \<noteq> 0 \<Longrightarrow>
   taper_pixel_contribution streamlength step =
     Inr (0.5 * (1 + cos (pi * of_int step / of_int streamlength)))"
  by (simp add: taper_pixel_contribution_def py_truediv_def)

lemma taper_positive:
  assumes "0 \<le> step" "step < streamlength"
  shows "\<exists>w. taper_pixel_contribution streamlength step = Inr w \<and> 0 < w \<and> w \<le> 1"
proof -
  define q where "q = pi * of_int step / of_int streamlength"
  have L: "0 < (of_int streamlength :: real)" using assms by simp
  have q0: "0 \<le> q" using assms by (simp add: q_def)
  have "real_of_int step / of_int streamlength < 1" using assms L by simp
  then have "pi * (of_int step / of_int streamlength) < pi * 1"
    by (simp only: mult_less_cancel_left_pos pi_gt_zero)
  then have "q < pi" by (simp add: q_def)
  then have "cos pi < cos q"
    using cos_monotone_0_pi[of q pi] q0 by simp
  then have pos: "0 < 0.5 * (1 + cos q)" by simp
  have le: "0.5 * (1 + cos q) \<le> 1"
    using cos_le_one[of q] by simp
  have "taper_pixel_contribution streamlength step = Inr (0.5 * (1 + cos q))"
    using assms taper_value[of streamlength step] by (simp add: q_def)
  with pos le show ?thesis by blast
qed

lemma norm_index_nonneg:
  "0 \<le> i \<Longrightarrow> i < int n \<Longrightarrow> norm_index n i = Inr (nat i)"
  by (simp add: norm_index_def)

lemma cell_inside:
  assumes "inside R C st"
  shows "0 \<le> \<lfloor>row_float st\<rfloor>" "\<lfloor>row_float st\<rfloor> < int R" "0 \<le> \<lfloor>col_float st\<rfloor>" "\<lfloor>col_float st\<rfloor> < int C"
        "nat \<lfloor>row_float st\<rfloor> < R" "nat \<lfloor>col_float st\<rfloor> < C"
proof -
  show a: "0 \<le> \<lfloor>row_float st\<rfloor>" and b: "\<lfloor>row_float st\<rfloor> < int R"
    and c: "0 \<le> \<lfloor>col_float st\<rfloor>" and d: "\<lfloor>col_float st\<rfloor> < int C"
    using assms by (simp_all add: inside_def floor_less_iff)
  show "nat \<lfloor>row_float st\<rfloor> < R" using a b by linarith
  show "nat \<lfloor>col_float st\<rfloor> < C" using c d by linarith
qed

lemma cell_velocity_inside:
  assumes "well_formed vfield sfield_in R C" "inside R C st"
  shows "cell_velocity vfield dir_sgn \<lfloor>row_float st\<rfloor> \<lfloor>col_float st\<rfloor> =
           Inr (of_int dir_sgn * data3 vfield 0 (nat \<lfloor>row_float st\<rfloor>) (nat \<lfloor>col_float st\<rfloor>),
                of_int dir_sgn * data3 vfield 1 (nat \<lfloor>row_float st\<rfloor>) (nat \<lfloor>col_float st\<rfloor>))"
proof -
  have k: "norm_index 2 0 = Inr 0" "norm_index 2 1 = Inr 1"
    by (simp_all add: norm_index_def)
  have s: "shape3 vfield = (2, R, C)" using assms(1) by (simp add: well_formed_def)
  show ?thesis
    using cell_inside(1-4)[OF assms(2)]
    by (simp add: cell_velocity_def getitem3_def s k norm_index_nonneg)
qed

lemma sfield_inside:
  assumes "well_formed vfield sfield_in R C" "inside R C st"
  shows "getitem2 sfield_in \<lfloor>row_float st\<rfloor> \<lfloor>col_float st\<rfloor> =
           Inr (data2 sfield_in (nat \<lfloor>row_float st\<rfloor>) (nat \<lfloor>col_float st\<rfloor>))"
proof -
  have s: "shape2 sfield_in = (R, C)" using assms(1) by (simp add: well_formed_def)
  show ?thesis
    using cell_inside(1-4)[OF assms(2)]
    by (simp add: getitem2_def s norm_index_nonneg)
qed

text \<open>The crossing time of one axis, as a value.\<close>

lemma delta_time_value:
  "delta_time pos vel =
     Inr (if vel > 0 then Finite ((of_int \<lfloor>pos\<rfloor> + 1 - pos) / vel)
          else if vel < 0 then Finite ((of_int \<lceil>pos\<rceil> - 1 - pos) / vel)
          else Infinity)"
  by (simp add: delta_time_def py_truediv_def)

lemma delta_time_positive:
  assumes "delta_time pos vel = Inr (Finite t)"
  shows "0 < t" "vel \<noteq> 0"
proof -
  have a: "0 < of_int \<lfloor>pos\<rfloor> + 1 - pos" by linarith
  have b: "of_int \<lceil>pos\<rceil> - 1 - pos < 0" by linarith
  show "0 < t" using assms a b
    by (auto simp: delta_time_value split: if_splits intro: divide_neg_neg)
  show "vel \<noteq> 0" using assms by (auto simp: delta_time_value split: if_splits)
qed

lemma advance_position_value:
  assumes "\<not> (vel_row = 0 \<and> vel_col = 0)"
  obtains t where "0 < t"
    "py_min (if vel_col > 0 then Finite ((of_int \<lfloor>col\<rfloor> + 1 - col) / vel_col)
             else if vel_col < 0 then Finite ((of_int \<lceil>col\<rceil> - 1 - col) / vel_col)
             else Infinity)
            (if vel_row > 0 then Finite ((of_int \<lfloor>row\<rfloor> + 1 - row) / vel_row)
             else if vel_row < 0 then Finite ((of_int \<lceil>row\<rceil> - 1 - row) / vel_row)
             else Infinity) = Finite t"
    "advance_position row col vel_row vel_col = Inr (row + vel_row * t, col + vel_col * t)"
proof -
  obtain dr where dr: "delta_time row vel_row = Inr dr" by (simp add: delta_time_value)
  obtain dc where dc: "delta_time col vel_col = Inr dc" by (simp add: delta_time_value)
  have "dr \<noteq> Infinity \<or> dc \<noteq> Infinity"
    using assms dr dc by (auto simp: delta_time_value split: if_splits)
  then have "\<exists>t. py_min dc dr = Finite t"
    by (cases dr; cases dc) (auto simp: py_min_def)
  then obtain t where t: "py_min dc dr = Finite t" ..
  have "dr = Finite t \<or> dc = Finite t"
    using t by (cases dr; cases dc) (auto simp: py_min_def split: if_splits)
  then have "0 < t" using dr dc delta_time_positive(1) by blast
  moreover have "advance_position row col vel_row vel_col = Inr (row + vel_row * t, col + vel_col * t)"
    using dr dc t by (simp add: advance_position_def)
  moreover have "py_min (if vel_col > 0 then Finite ((of_int \<lfloor>col\<rfloor> + 1 - col) / vel_col)
             else if vel_col < 0 then Finite ((of_int \<lceil>col\<rceil> - 1 - col) / vel_col)
             else Infinity)
            (if vel_row > 0 then Finite ((of_int \<lfloor>row\<rfloor> + 1 - row) / vel_row)
             else if vel_row < 0 then Finite ((of_int \<lceil>row\<rceil> - 1 - row) / vel_row)
             else Infinity) = Finite t"
    using dr dc t unfolding delta_time_value by simp
  ultimately show ?thesis using that by blast
qed

lemma apply_boundary_periodic:
  assumes "0 < R" "0 < C"
  obtains row' col' where "apply_boundary True R C row col = Inr (Some (row', col'))"
    "py_fmod (row + of_nat R) (of_nat R) = Inr row'" "py_fmod (col + of_nat C) (of_nat C) = Inr col'"
    "0 \<le> row'" "row' < of_nat R" "0 \<le> col'" "col' < of_nat C"
proof -
  obtain row' where r: "py_fmod (row + of_nat R) (of_nat R) = Inr row'" "0 \<le> row'" "row' < of_nat R"
    using py_fmod_range[of "real R" "row + of_nat R"] assms by auto
  obtain col' where c: "py_fmod (col + of_nat C) (of_nat C) = Inr col'" "0 \<le> col'" "col' < of_nat C"
    using py_fmod_range[of "real C" "col + of_nat C"] assms by auto
  have "apply_boundary True R C row col = Inr (Some (row', col'))"
    using r c by (simp add: apply_boundary_def)
  then show ?thesis using r c that by blast
qed

lemma apply_boundary_open:
  "apply_boundary False R C row col =
     Inr (if (0 \<le> row \<and> row < of_nat R) \<and> (0 \<le> col \<and> col < of_nat C)
          then Some (row, col) else None)"
  by (simp add: apply_boundary_def)

lemma inside_extent: "inside R C st \<Longrightarrow> 0 < R \<and> 0 < C"
  by (cases R; cases C) (auto simp: inside_def)

lemma advect_body_cases:
  assumes wf: "well_formed vfield sfield_in R C" and ins: "inside R C st"
    and step: "0 \<le> step" "step < streamlength"
  obtains
    (Stall) "stalled vfield dir_sgn st"
      "advect_body vfield sfield_in dir_sgn streamlength per step st = Inr (Break st)"
  | (Exit) vel_col vel_row row1 col1 where
      "cell_velocity vfield dir_sgn \<lfloor>row_float st\<rfloor> \<lfloor>col_float st\<rfloor> = Inr (vel_col, vel_row)"
      "\<not> (vel_row = 0 \<and> vel_col = 0)" "\<not> per"
      "advance_position (row_float st) (col_float st) vel_row vel_col = Inr (row1, col1)"
      "\<not> ((0 \<le> row1 \<and> row1 < of_nat R) \<and> (0 \<le> col1 \<and> col1 < of_nat C))"
      "advect_body vfield sfield_in dir_sgn streamlength per step st =
         Inr (Break (st\<lparr>row_float := row1, col_float := col1\<rparr>))"
  | (Step) vel_col vel_row row1 col1 row2 col2 w where
      "cell_velocity vfield dir_sgn \<lfloor>row_float st\<rfloor> \<lfloor>col_float st\<rfloor> = Inr (vel_col, vel_row)"
      "\<not> (vel_row = 0 \<and> vel_col = 0)"
      "advance_position (row_float st) (col_float st) vel_row vel_col = Inr (row1, col1)"
      "apply_boundary per R C row1 col1 = Inr (Some (row2, col2))"
      "0 \<le> row2" "row2 < of_nat R" "0 \<le> col2" "col2 < of_nat C"
      "taper_pixel_contribution streamlength step = Inr w" "0 < w" "w \<le> 1"
      "advect_body vfield sfield_in dir_sgn streamlength per step st =
         Inr (Next \<lparr>row_float = row2, col_float = col2,
                    weighted_sum = weighted_sum st
                      + w * data2 sfield_in (nat \<lfloor>row_float st\<rfloor>) (nat \<lfloor>col_float st\<rfloor>),
                    total_weight = total_weight st + w\<rparr>)"
proof -
  define vel_col where
    "vel_col = of_int dir_sgn * data3 vfield 0 (nat \<lfloor>row_float st\<rfloor>) (nat \<lfloor>col_float st\<rfloor>)"
  define vel_row where
    "vel_row = of_int dir_sgn * data3 vfield 1 (nat \<lfloor>row_float st\<rfloor>) (nat \<lfloor>col_float st\<rfloor>)"
  have shape: "fst (snd (shape3 vfield)) = R" "snd (snd (shape3 vfield)) = C"
    using wf by (simp_all add: well_formed_def)
  have vel: "cell_velocity vfield dir_sgn \<lfloor>row_float st\<rfloor> \<lfloor>col_float st\<rfloor> = Inr (vel_col, vel_row)"
    using cell_velocity_inside[OF wf ins] by (simp add: vel_col_def vel_row_def)
  have sf: "getitem2 sfield_in \<lfloor>row_float st\<rfloor> \<lfloor>col_float st\<rfloor> =
              Inr (data2 sfield_in (nat \<lfloor>row_float st\<rfloor>) (nat \<lfloor>col_float st\<rfloor>))"
    by (rule sfield_inside[OF wf ins])
  obtain w where w: "taper_pixel_contribution streamlength step = Inr w" "0 < w" "w \<le> 1"
    using taper_positive[OF step] by blast
  show ?thesis
  proof (cases "vel_row = 0 \<and> vel_col = 0")
    case True
    then have "stalled vfield dir_sgn st" using vel by (simp add: stalled_def)
    moreover have "advect_body vfield sfield_in dir_sgn streamlength per step st = Inr (Break st)"
      using True vel by (simp add: advect_body_def)
    ultimately show ?thesis by (rule Stall)
  next
    case False
    obtain t where t: "advance_position (row_float st) (col_float st) vel_row vel_col =
        Inr (row_float st + vel_row * t, col_float st + vel_col * t)"
      using advance_position_value[OF False] by metis
    define row1 where "row1 = row_float st + vel_row * t"
    define col1 where "col1 = col_float st + vel_col * t"
    have adv: "advance_position (row_float st) (col_float st) vel_row vel_col = Inr (row1, col1)"
      using t by (simp add: row1_def col1_def)
    have nz: "(\<bar>vel_row\<bar> = 0 \<and> \<bar>vel_col\<bar> = 0) = False" using False by simp
    show ?thesis
    proof (cases "apply_boundary per R C row1 col1 = Inr None")
      case True
      then have per: "\<not> per"
        using inside_extent[OF ins]
        by (auto simp: apply_boundary_def py_fmod_def split: if_splits sum.splits)
      then have out: "\<not> ((0 \<le> row1 \<and> row1 < of_nat R) \<and> (0 \<le> col1 \<and> col1 < of_nat C))"
        using True by (auto simp: apply_boundary_open split: if_splits)
      have "advect_body vfield sfield_in dir_sgn streamlength per step st =
              Inr (Break (st\<lparr>row_float := row1, col_float := col1\<rparr>))"
        using True by (simp add: advect_body_def shape vel nz adv del: abs_eq_0)
      then show ?thesis using Exit[OF vel False per adv out] by blast
    next
      case nb: False
      have "\<exists>row2 col2. apply_boundary per R C row1 col1 = Inr (Some (row2, col2))
              \<and> 0 \<le> row2 \<and> row2 < of_nat R \<and> 0 \<le> col2 \<and> col2 < of_nat C"
      proof (cases per)
        case True
        have "0 < R" "0 < C" using inside_extent[OF ins] by simp_all
        then obtain row' col' where "apply_boundary True R C row1 col1 = Inr (Some (row', col'))"
          "0 \<le> row'" "row' < of_nat R" "0 \<le> col'" "col' < of_nat C"
          using apply_boundary_periodic[of R C row1 col1] by blast
        then show ?thesis using True by auto
      next
        case False
        then show ?thesis using nb by (auto simp: apply_boundary_open split: if_splits)
      qed
      then obtain row2 col2 where b: "apply_boundary per R C row1 col1 = Inr (Some (row2, col2))"
        "0 \<le> row2" "row2 < of_nat R" "0 \<le> col2" "col2 < of_nat C" by blast
      have "advect_body vfield sfield_in dir_sgn streamlength per step st =
         Inr (Next \<lparr>row_float = row2, col_float = col2,
                    weighted_sum = weighted_sum st
                      + w * data2 sfield_in (nat \<lfloor>row_float st\<rfloor>) (nat \<lfloor>col_float st\<rfloor>),
                    total_weight = total_weight st + w\<rparr>)"
        by (simp add: advect_body_def shape vel nz adv b(1) w(1) sf del: abs_eq_0)
      then show ?thesis using Step[OF vel False adv b w] by blast
    qed
  qed
qed

lemma advect_body_total:
  assumes "well_formed vfield sfield_in R C" "inside R C st" "0 \<le> step" "step < streamlength"
  shows "\<exists>r. advect_body vfield sfield_in dir_sgn streamlength per step st = Inr r"
  by (rule advect_body_cases[OF assms, of dir_sgn per]) blast+

lemma advect_body_Next_inside:
  assumes "well_formed vfield sfield_in R C" "inside R C st" "0 \<le> step" "step < streamlength"
    and "advect_body vfield sfield_in dir_sgn streamlength per step st = Inr (Next st')"
  shows "inside R C st'"
  by (rule advect_body_cases[OF assms(1-4), of dir_sgn per])
     (use assms(5) in \<open>auto simp: inside_def\<close>)

lemma advect_loop_done:
  "\<not> step < streamlength \<Longrightarrow>
   advect_loop vfield sfield_in dir_sgn streamlength per step st = Inr st"
  by (subst advect_loop.simps) simp

lemma advect_loop_Break:
  "step < streamlength \<Longrightarrow>
   advect_body vfield sfield_in dir_sgn streamlength per step st = Inr (Break st') \<Longrightarrow>
   advect_loop vfield sfield_in dir_sgn streamlength per step st = Inr st'"
  by (subst advect_loop.simps) simp

lemma advect_loop_Next:
  "step < streamlength \<Longrightarrow>
   advect_body vfield sfield_in dir_sgn streamlength per step st = Inr (Next st') \<Longrightarrow>
   advect_loop vfield sfield_in dir_sgn streamlength per step st =
   advect_loop vfield sfield_in dir_sgn streamlength per (step + 1) st'"
  by (subst advect_loop.simps) simp





text \<open>An invariant of the loop holds of the state it returns.\<close>

lemma advect_loop_rule:
  assumes wf: "well_formed vfield sfield_in R C"
    and start: "inside R C st" "0 \<le> step" "I st"
    and nxt: "\<And>k s s'. 0 \<le> k \<Longrightarrow> k < streamlength \<Longrightarrow> inside R C s \<Longrightarrow> I s \<Longrightarrow>
        advect_body vfield sfield_in dir_sgn streamlength per k s = Inr (Next s') \<Longrightarrow> I s'"
    and brk: "\<And>k s s'. 0 \<le> k \<Longrightarrow> k < streamlength \<Longrightarrow> inside R C s \<Longrightarrow> I s \<Longrightarrow>
        advect_body vfield sfield_in dir_sgn streamlength per k s = Inr (Break s') \<Longrightarrow> Q s'"
    and fin: "\<And>s. inside R C s \<Longrightarrow> I s \<Longrightarrow> Q s"
  shows "\<exists>st'. advect_loop vfield sfield_in dir_sgn streamlength per step st = Inr st' \<and> Q st'"
  using start
proof (induction "nat (streamlength - step)" arbitrary: step st)
  case 0
  then have "\<not> step < streamlength" by simp
  then show ?case using fin 0 by (simp add: advect_loop_done)
next
  case (Suc n)
  then have lt: "step < streamlength" by linarith
  obtain r where r: "advect_body vfield sfield_in dir_sgn streamlength per step st = Inr r"
    using advect_body_total[OF wf Suc.prems(1,2) lt, of dir_sgn per] by blast
  show ?case
  proof (cases r)
    case (Break s')
    then show ?thesis
      using r brk[OF Suc.prems(2) lt Suc.prems(1,3)] advect_loop_Break[OF lt] by simp
  next
    case (Next s')
    have i: "inside R C s'"
      using advect_body_Next_inside[OF wf Suc.prems(1,2) lt] r Next by simp
    have "I s'" using nxt[OF Suc.prems(2) lt Suc.prems(1,3)] r Next by simp
    moreover have "n = nat (streamlength - (step + 1))" using Suc.hyps(2) by linarith
    ultimately have "\<exists>st'. advect_loop vfield sfield_in dir_sgn streamlength per (step + 1) s' = Inr st'
        \<and> Q st'"
      using Suc.hyps(1)[of "step + 1" s'] i Suc.prems(2) by simp
    then show ?thesis using r Next advect_loop_Next[OF lt] by simp
  qed
qed



subsection \<open>The example inputs\<close>

lemma example_well_formed:
  "well_formed uniform_vfield column_sfield 4 4" "well_formed zero_vfield column_sfield 4 4"
  by (simp_all add: well_formed_def uniform_vfield_def zero_vfield_def column_sfield_def)



subsection \<open>Crossing times and boundary handling\<close>




subsection \<open>Stalling and totality\<close>

lemma advect_loop_total:
  assumes "well_formed vfield sfield_in R C" "inside R C st" "0 \<le> step"
  shows "\<exists>st'. advect_loop vfield sfield_in dir_sgn streamlength per step st = Inr st'"
  using advect_loop_rule[OF assms(1,2,3), of "\<lambda>_. True" streamlength dir_sgn per "\<lambda>_. True"]
  by simp

lemma advect_body_stalled:
  assumes wf: "well_formed vfield sfield_in R C" and ins: "inside R C st"
    and step: "0 \<le> step" "step < streamlength"
    and st: "stalled vfield dir_sgn st"
  shows "advect_body vfield sfield_in dir_sgn streamlength per step st = Inr (Break st)"
  by (rule advect_body_cases[OF wf ins step, of dir_sgn per])
     (use st in \<open>auto simp: stalled_def\<close>)

subsection \<open>Seeds and the states of a streamline\<close>

lemma initial_inside:
  assumes "0 \<le> start_row" "start_row < int R" "0 \<le> start_col" "start_col < int C"
  shows "inside R C (initial_state start_row start_col)"
proof -
  have "real_of_int start_row < real_of_int (int R)" "real_of_int start_col < real_of_int (int C)"
    using assms by (simp_all only: of_int_less_iff)
  then show ?thesis using assms by (simp add: inside_def initial_state_def)
qed


subsection \<open>Open boundaries\<close>





subsection \<open>The sums of one streamline\<close>

lemma advect_body_sums:
  assumes wf: "well_formed vfield sfield_in R C" and ins: "inside R C st"
    and step: "0 \<le> step" "step < streamlength"
    and body: "advect_body vfield sfield_in dir_sgn streamlength per step st = Inr r"
  shows "(weighted_sum (exit_state r) = weighted_sum st
          \<and> total_weight (exit_state r) = total_weight st)
       \<or> (\<exists>w. 0 < w \<and> w \<le> 1
            \<and> taper_pixel_contribution streamlength step = Inr w
            \<and> weighted_sum (exit_state r) = weighted_sum st
                 + w * data2 sfield_in (nat \<lfloor>row_float st\<rfloor>) (nat \<lfloor>col_float st\<rfloor>)
            \<and> total_weight (exit_state r) = total_weight st + w)"
  by (rule advect_body_cases[OF wf ins step, of dir_sgn per]) (use body in auto)

lemma advect_streamline_bounds:
  assumes wf: "well_formed vfield sfield_in R C"
    and seed: "0 \<le> start_row" "start_row < int R" "0 \<le> start_col" "start_col < int C"
    and bounds: "\<And>r c. r < R \<Longrightarrow> c < C \<Longrightarrow> lo \<le> data2 sfield_in r c \<and> data2 sfield_in r c \<le> hi"
  shows "\<exists>ws tw. advect_streamline vfield sfield_in start_row start_col dir_sgn streamlength per
                  = Inr (ws, tw)
              \<and> 0 \<le> tw \<and> lo * tw \<le> ws \<and> ws \<le> hi * tw"
proof -
  define I where "I = (\<lambda>s::streamline_state. 0 \<le> total_weight s \<and> lo * total_weight s \<le> weighted_sum s
                          \<and> weighted_sum s \<le> hi * total_weight s)"
  have keep: "I (exit_state r)"
    if a: "0 \<le> k" "k < streamlength" "inside R C s" "I s"
      "advect_body vfield sfield_in dir_sgn streamlength per k s = Inr r" for k s r
  proof -
    define v where "v = data2 sfield_in (nat \<lfloor>row_float s\<rfloor>) (nat \<lfloor>col_float s\<rfloor>)"
    have v: "lo \<le> v" "v \<le> hi"
      using bounds[OF cell_inside(5,6)[OF a(3)]] by (simp_all add: v_def)
    from advect_body_sums[OF wf a(3,1,2,5)] show ?thesis
    proof (elim disjE exE conjE)
      assume "weighted_sum (exit_state r) = weighted_sum s"
        "total_weight (exit_state r) = total_weight s"
      then show ?thesis using a(4) by (simp add: I_def)
    next
      fix w :: real
      assume w: "0 < w"
        and ws: "weighted_sum (exit_state r) = weighted_sum s
                 + w * data2 sfield_in (nat \<lfloor>row_float s\<rfloor>) (nat \<lfloor>col_float s\<rfloor>)"
        and tw: "total_weight (exit_state r) = total_weight s + w"
      have p: "lo * w \<le> w * v" "w * v \<le> hi * w"
        using v w by (simp_all add: mult.commute)
      have e: "lo * (total_weight s + w) = lo * total_weight s + lo * w"
        "hi * (total_weight s + w) = hi * total_weight s + hi * w"
        by (simp_all add: distrib_left)
      have i: "0 \<le> total_weight s" "lo * total_weight s \<le> weighted_sum s"
        "weighted_sum s \<le> hi * total_weight s"
        using a(4) by (simp_all add: I_def)
      have "0 \<le> total_weight s + w" using i(1) w by linarith
      moreover have "lo * (total_weight s + w) \<le> weighted_sum s + w * v"
        unfolding e using i(2) p(1) by linarith
      moreover have "weighted_sum s + w * v \<le> hi * (total_weight s + w)"
        unfolding e using i(3) p(2) by linarith
      ultimately show ?thesis unfolding I_def ws tw v_def by blast
    qed
  qed
  have "\<exists>st'. advect_loop vfield sfield_in dir_sgn streamlength per 0
                 (initial_state start_row start_col) = Inr st' \<and> I st'"
  proof (rule advect_loop_rule[where I = I, OF wf initial_inside[OF seed]])
    show "(0::int) \<le> 0" by simp
    show "I (initial_state start_row start_col)" by (simp add: I_def initial_state_def)
  next
    fix k s s'
    assume "0 \<le> k" "k < streamlength" "inside R C s" "I s"
      "advect_body vfield sfield_in dir_sgn streamlength per k s = Inr (Next s')"
    then show "I s'" using keep[of k s "Next s'"] by simp
  next
    fix k s s'
    assume "0 \<le> k" "k < streamlength" "inside R C s" "I s"
      "advect_body vfield sfield_in dir_sgn streamlength per k s = Inr (Break s')"
    then show "I s'" using keep[of k s "Break s'"] by simp
  next
    fix s assume "I s" then show "I s" .
  qed
  then show ?thesis by (auto simp: advect_streamline_def I_def)
qed

text \<open>The values of a scalar field lie between the least and the greatest of them.\<close>

lemma array2_values_bounds:
  assumes "shape2 a = (R, C)" "r < R" "c < C"
  shows "Min (array2_values a) \<le> data2 a r c" "data2 a r c \<le> Max (array2_values a)"
proof -
  have f: "finite (array2_values a)" by (simp add: array2_values_def)
  have m: "data2 a r c \<in> array2_values a"
    using assms by (auto simp: array2_values_def)
  show "Min (array2_values a) \<le> data2 a r c" using f m by (rule Min_le)
  show "data2 a r c \<le> Max (array2_values a)" using f m by (rule Max_ge)
qed

lemma lic_pixel_value:
  assumes wf: "well_formed vfield sfield_in R C"
    and seed: "0 \<le> row" "row < int R" "0 \<le> col" "col < int C"
  shows "\<exists>fs ft bs bt.
           advect_streamline vfield sfield_in row col 1 streamlength per = Inr (fs, ft)
         \<and> advect_streamline vfield sfield_in row col (- 1) streamlength per = Inr (bs, bt)
         \<and> 0 \<le> ft \<and> 0 \<le> bt
         \<and> Min (array2_values sfield_in) * ft \<le> fs \<and> fs \<le> Max (array2_values sfield_in) * ft
         \<and> Min (array2_values sfield_in) * bt \<le> bs \<and> bs \<le> Max (array2_values sfield_in) * bt
         \<and> lic_pixel vfield sfield_in streamlength per row col
              = Inr (if ft + bt > 0 then (fs + bs) / (ft + bt) else 0)"
proof -
  have sh: "shape2 sfield_in = (R, C)" using wf by (simp add: well_formed_def)
  have b: "Min (array2_values sfield_in) \<le> data2 sfield_in r c
         \<and> data2 sfield_in r c \<le> Max (array2_values sfield_in)" if "r < R" "c < C" for r c
    using array2_values_bounds[OF sh that] by simp
  obtain fs ft where f: "advect_streamline vfield sfield_in row col 1 streamlength per = Inr (fs, ft)"
    "0 \<le> ft" "Min (array2_values sfield_in) * ft \<le> fs" "fs \<le> Max (array2_values sfield_in) * ft"
    using advect_streamline_bounds[OF wf seed b, of 1 streamlength per] by blast
  obtain bs bt where g: "advect_streamline vfield sfield_in row col (- 1) streamlength per = Inr (bs, bt)"
    "0 \<le> bt" "Min (array2_values sfield_in) * bt \<le> bs" "bs \<le> Max (array2_values sfield_in) * bt"
    using advect_streamline_bounds[OF wf seed b, of "- 1" streamlength per] by blast
  have "lic_pixel vfield sfield_in streamlength per row col
              = Inr (if ft + bt > 0 then (fs + bs) / (ft + bt) else 0)"
    using f(1) g(1) by (simp add: lic_pixel_def py_truediv_def)
  then show ?thesis using f g by blast
qed


subsection \<open>The driver\<close>

lemma setitem2_inside:
  assumes "shape2 a = (R, C)" "0 \<le> i" "i < int R" "0 \<le> j" "j < int C"
  shows "setitem2 a i j v =
           Inr (a\<lparr>data2 := \<lambda>r c. if r = nat i \<and> c = nat j then v else data2 a r c\<rparr>)"
  using assms by (simp add: setitem2_def norm_index_nonneg)

text \<open>
  What a run of pixel tasks leaves in the output: the value of the pixel wherever a task
  wrote, and the old content elsewhere.
\<close>

lemma run_tasks_result:
  assumes wf: "well_formed vfield sfield_in R C"
    and sh: "shape2 sfield_out = (R, C)"
    and tasks: "\<forall>(r, c) \<in> set tasks. 0 \<le> r \<and> r < int R \<and> 0 \<le> c \<and> c < int C"
  shows "\<exists>out. run_tasks vfield sfield_in streamlength per tasks sfield_out = Inr out
            \<and> shape2 out = (R, C)
            \<and> (\<forall>i j. if (int i, int j) \<in> set tasks
                      then lic_pixel vfield sfield_in streamlength per (int i) (int j)
                             = Inr (data2 out i j)
                      else data2 out i j = data2 sfield_out i j)"
  using sh tasks
proof (induction tasks arbitrary: sfield_out)
  case Nil
  then show ?case by simp
next
  case (Cons task tasks)
  obtain r c where rc: "task = (r, c)" by (cases task)
  have seed: "0 \<le> r" "r < int R" "0 \<le> c" "c < int C" using Cons.prems(2) rc by simp_all
  obtain v where v: "lic_pixel vfield sfield_in streamlength per r c = Inr v"
    using lic_pixel_value[OF wf seed, of streamlength per] by blast
  define out1 where
    "out1 = sfield_out\<lparr>data2 := \<lambda>i j. if i = nat r \<and> j = nat c then v else data2 sfield_out i j\<rparr>"
  have p: "pixel_task vfield sfield_in streamlength per task sfield_out = Inr out1"
    using v setitem2_inside[OF Cons.prems(1) seed, of v] by (simp add: pixel_task_def rc out1_def)
  have sh1: "shape2 out1 = (R, C)" using Cons.prems(1) by (simp add: out1_def)
  have t: "\<forall>(r, c) \<in> set tasks. 0 \<le> r \<and> r < int R \<and> 0 \<le> c \<and> c < int C"
    using Cons.prems(2) by simp
  obtain out where out: "run_tasks vfield sfield_in streamlength per tasks out1 = Inr out"
    "shape2 out = (R, C)"
    "\<And>i j. if (int i, int j) \<in> set tasks
             then lic_pixel vfield sfield_in streamlength per (int i) (int j) = Inr (data2 out i j)
             else data2 out i j = data2 out1 i j"
    using Cons.IH[OF sh1 t] by blast
  have run: "run_tasks vfield sfield_in streamlength per (task # tasks) sfield_out = Inr out"
    using p out(1) by simp
  have "if (int i, int j) \<in> set (task # tasks)
        then lic_pixel vfield sfield_in streamlength per (int i) (int j) = Inr (data2 out i j)
        else data2 out i j = data2 sfield_out i j" for i j
  proof (cases "(int i, int j) \<in> set tasks")
    case True
    then show ?thesis using out(3)[of i j] by simp
  next
    case False
    then have o: "data2 out i j = data2 out1 i j" using out(3)[of i j] by simp
    show ?thesis
    proof (cases "(int i, int j) = (r, c)")
      case True
      then have "i = nat r" "j = nat c" by auto
      then have "data2 out1 i j = v" by (simp add: out1_def)
      then show ?thesis using True o v rc by simp
    next
      case ne: False
      then have "\<not> (i = nat r \<and> j = nat c)" using seed by auto
      then have "data2 out1 i j = data2 sfield_out i j" by (auto simp: out1_def)
      then show ?thesis using ne False o rc by auto
    qed
  qed
  then show ?case using run out(2) by blast
qed

lemma grid_tasks:
  "set (List.product [0..int R - 1] [0..int C - 1]) = {0..<int R} \<times> {0..<int C}"
  by auto

text \<open>Two arrays of one shape with the same elements are the same array.\<close>

lemma array2_eqI:
  fixes a b :: array2
  assumes "shape2 a = shape2 b" "\<And>i j. data2 a i j = data2 b i j"
  shows "a = b"
proof -
  have "data2 a = data2 b" using assms(2) by (intro ext)
  then show ?thesis using assms(1) by simp
qed

text \<open>The output depends only on which pixels have a task, not on the order of the tasks.\<close>

lemma run_tasks_order:
  assumes wf: "well_formed vfield sfield_in R C"
    and sh: "shape2 sfield_out = (R, C)"
    and t1: "\<forall>(r, c) \<in> set tasks1. 0 \<le> r \<and> r < int R \<and> 0 \<le> c \<and> c < int C"
    and same: "set tasks1 = set tasks2"
  shows "run_tasks vfield sfield_in streamlength per tasks1 sfield_out
       = run_tasks vfield sfield_in streamlength per tasks2 sfield_out"
proof -
  have t2: "\<forall>(r, c) \<in> set tasks2. 0 \<le> r \<and> r < int R \<and> 0 \<le> c \<and> c < int C"
    using t1 same by simp
  obtain out1 where o1: "run_tasks vfield sfield_in streamlength per tasks1 sfield_out = Inr out1"
    "shape2 out1 = (R, C)"
    "\<And>i j. if (int i, int j) \<in> set tasks1
             then lic_pixel vfield sfield_in streamlength per (int i) (int j) = Inr (data2 out1 i j)
             else data2 out1 i j = data2 sfield_out i j"
    using run_tasks_result[OF wf sh t1, of streamlength per] by blast
  obtain out2 where o2: "run_tasks vfield sfield_in streamlength per tasks2 sfield_out = Inr out2"
    "shape2 out2 = (R, C)"
    "\<And>i j. if (int i, int j) \<in> set tasks2
             then lic_pixel vfield sfield_in streamlength per (int i) (int j) = Inr (data2 out2 i j)
             else data2 out2 i j = data2 sfield_out i j"
    using run_tasks_result[OF wf sh t2, of streamlength per] by blast
  have "data2 out1 i j = data2 out2 i j" for i j
    using o1(3)[of i j] o2(3)[of i j] same by (cases "(int i, int j) \<in> set tasks2") simp_all
  then have "out1 = out2" using o1(2) o2(2) by (intro array2_eqI) simp_all
  then show ?thesis using o1(1) o2(1) by simp
qed

lemma compute_lic_kernel_result:
  assumes wf: "well_formed vfield sfield_in R C"
    and sh: "shape2 sfield_out = (R, C)"
  shows "\<exists>out. compute_lic_kernel vfield sfield_in sfield_out streamlength (int R) (int C) per
                 = Inr out
            \<and> shape2 out = (R, C)
            \<and> (\<forall>i<R. \<forall>j<C. lic_pixel vfield sfield_in streamlength per (int i) (int j)
                               = Inr (data2 out i j))"
proof -
  have t: "\<forall>(r, c) \<in> set (List.product [0..int R - 1] [0..int C - 1]).
             0 \<le> r \<and> r < int R \<and> 0 \<le> c \<and> c < int C"
    by auto
  obtain out where o: "run_tasks vfield sfield_in streamlength per
        (List.product [0..int R - 1] [0..int C - 1]) sfield_out = Inr out"
    "shape2 out = (R, C)"
    "\<And>i j. if (int i, int j) \<in> set (List.product [0..int R - 1] [0..int C - 1])
             then lic_pixel vfield sfield_in streamlength per (int i) (int j) = Inr (data2 out i j)
             else data2 out i j = data2 sfield_out i j"
    using run_tasks_result[OF wf sh t, of streamlength per] by blast
  have "lic_pixel vfield sfield_in streamlength per (int i) (int j) = Inr (data2 out i j)"
    if "i < R" "j < C" for i j
  proof -
    have "(int i, int j) \<in> set (List.product [0..int R - 1] [0..int C - 1])"
      using that by auto
    then show ?thesis using o(3)[of i j] by simp
  qed
  then show ?thesis using o(1,2) by (auto simp: compute_lic_kernel_def)
qed

subsection \<open>Streamlines that collect nothing\<close>

lemma advect_streamline_nothing:
  assumes wf: "well_formed vfield sfield_in R C"
    and seed: "0 \<le> start_row" "start_row < int R" "0 \<le> start_col" "start_col < int C"
    and zero: "(\<forall>r<R. \<forall>c<C. data3 vfield 0 r c = 0 \<and> data3 vfield 1 r c = 0) \<or> streamlength = 0"
  shows "advect_streamline vfield sfield_in start_row start_col dir_sgn streamlength per = Inr (0, 0)"
proof -
  note ins = initial_inside[OF seed]
  have "advect_loop vfield sfield_in dir_sgn streamlength per 0 (initial_state start_row start_col)
          = Inr (initial_state start_row start_col)"
  proof (cases "0 < streamlength")
    case False
    then show ?thesis by (simp add: advect_loop_done)
  next
    case True
    then have "\<forall>r<R. \<forall>c<C. data3 vfield 0 r c = 0 \<and> data3 vfield 1 r c = 0"
      using zero by simp
    then have "stalled vfield dir_sgn (initial_state start_row start_col)"
      using cell_velocity_inside[OF wf ins, of dir_sgn] cell_inside(5,6)[OF ins]
      by (simp add: stalled_def)
    then have "advect_body vfield sfield_in dir_sgn streamlength per 0
        (initial_state start_row start_col) = Inr (Break (initial_state start_row start_col))"
      using True by (intro advect_body_stalled[OF wf ins]) simp_all
    then show ?thesis using True by (intro advect_loop_Break) simp_all
  qed
  then show ?thesis by (simp add: advect_streamline_def initial_state_def)
qed

subsection \<open>The scenario of the specification\<close>

text \<open>
  The scenario evaluated: from the pixel in row 0 and column 1, with \<open>streamlength = 2\<close> and
  periodic boundaries, the forward streamline samples columns 1 and 2 and the backward one
  columns 1 and 0, with weights 1 and 1/2.
\<close>

lemmas advect_unfold = advect_streamline_def advect_loop.simps advect_body_def cell_velocity_def
  getitem3_def getitem2_def norm_index_def advance_position_def delta_time_def py_truediv_def
  py_min_def apply_boundary_def py_fmod_def taper_pixel_contribution_def initial_state_def
  uniform_vfield_def column_sfield_def Let_def

lemma scenario_forward:
  "advect_streamline uniform_vfield column_sfield 0 1 1 2 True = Inr (2, 3/2)"
  by (simp add: advect_unfold)

lemma scenario_backward:
  "advect_streamline uniform_vfield column_sfield 0 1 (- 1) 2 True = Inr (1, 3/2)"
  by (simp add: advect_unfold)

lemma scenario_pixel: "lic_pixel uniform_vfield column_sfield 2 True 0 1 = Inr 1"
  by (simp add: lic_pixel_def scenario_forward scenario_backward py_truediv_def)

lemma scenario_open_edge:
  "advect_streamline uniform_vfield column_sfield 2 3 1 2 False = Inr (0, 0)"
  "advect_streamline uniform_vfield column_sfield 2 3 (- 1) 2 False = Inr (4, 3/2)"
  by (simp_all add: advect_unfold)

section \<open>Properties of the kernel in double precision\<close>

subsection \<open>Rounding\<close>

lemma round_half_even_of_int: "round_half_even (of_int n) = n"
  by (simp add: round_half_even_def)

lemma round_half_even_ge: "of_int n \<le> r \<Longrightarrow> n \<le> round_half_even r"
proof -
  assume "of_int n \<le> r"
  then have "n \<le> \<lfloor>r\<rfloor>" by (simp add: le_floor_iff)
  then show ?thesis by (simp add: round_half_even_def Let_def)
qed

lemma two_powr_int: "0 \<le> j \<Longrightarrow> (2::real) powr of_int j = of_int (2 ^ nat j)"
  by (simp add: powr_realpow[symmetric])

lemma round_format_unfold:
  assumes "x \<noteq> 0" "e = max \<lfloor>log 2 \<bar>x\<bar>\<rfloor> (2 - emax)" "u = 2 powr of_int (e - int p + 1)"
    "y = of_int (round_half_even (x / u)) * u"
  shows "round_format p emax x =
           (if 2 powr of_int emax \<le> \<bar>y\<bar> then (if 0 < x then PosInf else NegInf) else Num y)"
  unfolding assms(2,3,4) using assms(1) by (simp only: round_format_def Let_def if_False)

lemma round_format_exact:
  assumes x: "x = of_int m * 2 powr of_int k"
    and m: "\<bar>m\<bar> < 2 ^ p"
    and k: "2 - emax - int p + 1 \<le> k"
    and fin: "\<bar>x\<bar> < 2 powr of_int emax"
  shows "round_format p emax x = Num x"
proof (cases "x = 0")
  case True
  then show ?thesis by (simp add: round_format_def)
next
  case False
  define e where "e = max \<lfloor>log 2 \<bar>x\<bar>\<rfloor> (2 - emax)"
  define u :: real where "u = 2 powr of_int (e - int p + 1)"
  have u: "0 < u" by (simp add: u_def)
  have ax: "0 < \<bar>x\<bar>" using False by simp
  have "\<bar>x\<bar> = of_int \<bar>m\<bar> * 2 powr of_int k" by (simp add: x abs_mult)
  also have "\<dots> < 2 ^ p * 2 powr of_int k"
  proof -
    have "real_of_int \<bar>m\<bar> < real_of_int (2 ^ p)" using m by (simp only: of_int_less_iff)
    then show ?thesis by simp
  qed
  also have "\<dots> = 2 powr (of_int (int p + k))"
    by (simp add: powr_add powr_realpow)
  finally have "\<bar>x\<bar> < 2 powr (of_int (int p + k))" .
  then have "log 2 \<bar>x\<bar> < of_int (int p + k)"
    using ax by (simp add: log_less_iff)
  then have "\<lfloor>log 2 \<bar>x\<bar>\<rfloor> < int p + k" by (simp add: floor_less_iff)
  then have j0: "0 \<le> k - e + int p - 1" using k by (simp add: e_def)
  define j where "j = k - e + int p - 1"
  have j: "0 \<le> j" using j0 by (simp add: j_def)
  have "x / u = of_int m * (2 powr of_int k / 2 powr of_int (e - int p + 1))"
    by (simp add: x u_def)
  also have "2 powr of_int k / 2 powr of_int (e - int p + 1) = (2::real) powr of_int j"
    by (simp add: powr_diff[symmetric] j_def algebra_simps)
  also have "\<dots> = of_int (2 ^ nat j)" using j by (rule two_powr_int)
  finally have "x / u = of_int (m * 2 ^ nat j)" by simp
  then have "round_half_even (x / u) = m * 2 ^ nat j"
    by (simp only: round_half_even_of_int)
  then have y: "x = of_int (round_half_even (x / u)) * u"
    using u \<open>x / u = of_int (m * 2 ^ nat j)\<close> by (simp add: field_simps)
  show ?thesis
    using round_format_unfold[OF False e_def u_def y] fin by simp
qed

lemma round_format_overflow:
  assumes big: "2 powr of_int emax \<le> x" and p: "0 < p" and emax: "1 \<le> emax"
  shows "round_format p emax x = PosInf"
proof -
  have "0 < (2::real) powr of_int emax" by simp
  with big have x: "0 < x" by linarith
  define e0 where "e0 = \<lfloor>log 2 \<bar>x\<bar>\<rfloor>"
  have "of_int emax \<le> log 2 x" using big x by (simp add: le_log_iff)
  then have e0: "emax \<le> e0" using x by (simp add: e0_def le_floor_iff)
  then have e: "max e0 (2 - emax) = e0" using emax by simp
  define u :: real where "u = 2 powr of_int (e0 - int p + 1)"
  have u: "0 < u" by (simp add: u_def)
  have "of_int e0 \<le> log 2 x" using x by (simp add: e0_def)
  then have "2 powr of_int e0 \<le> x" using x by (simp add: le_log_iff)
  then have "2 powr of_int e0 / u \<le> x / u" using u by (simp add: divide_right_mono)
  moreover have "2 powr of_int e0 / u = (2::real) powr of_int (int p - 1)"
    by (simp add: u_def powr_diff[symmetric] algebra_simps)
  moreover have "(2::real) powr of_int (int p - 1) = of_int (2 ^ nat (int p - 1))"
    using p by (intro two_powr_int) simp
  ultimately have "of_int (2 ^ nat (int p - 1)) \<le> x / u" by simp
  then have "2 ^ nat (int p - 1) \<le> round_half_even (x / u)" by (rule round_half_even_ge)
  then have "real_of_int (2 ^ nat (int p - 1)) \<le> of_int (round_half_even (x / u))"
    by (simp only: of_int_le_iff)
  then have "of_int (2 ^ nat (int p - 1)) * u \<le> of_int (round_half_even (x / u)) * u"
    using u by (simp only: mult_le_cancel_right_pos)
  moreover have "of_int (2 ^ nat (int p - 1)) * u = 2 powr of_int e0"
  proof -
    have "of_int (2 ^ nat (int p - 1)) = (2::real) powr of_int (int p - 1)"
      using p by (intro two_powr_int[symmetric]) simp
    then show ?thesis by (simp add: u_def powr_add[symmetric])
  qed
  moreover have "2 powr of_int emax \<le> (2::real) powr of_int e0" using e0 by simp
  ultimately have y: "2 powr of_int emax \<le> of_int (round_half_even (x / u)) * u" by linarith
  then have ay: "2 powr of_int emax \<le> \<bar>of_int (round_half_even (x / u)) * u\<bar>" by linarith
  have nz: "x \<noteq> 0" using x by simp
  have e': "e0 = max \<lfloor>log 2 \<bar>x\<bar>\<rfloor> (2 - emax)" using e by (simp add: e0_def)
  show ?thesis
    using round_format_unfold[OF nz e' u_def refl] ay x by simp
qed

subsection \<open>Doubles that round to themselves, and the first that overflow\<close>

lemma round_double_zero: "round_double 0 = Num 0"
  by (simp add: round_double_def round_format_def)

lemma round_double_of_int:
  assumes "\<bar>n\<bar> < 2 ^ 53"
  shows "round_double (of_int n) = Num (of_int n)"
  unfolding round_double_def
proof (rule round_format_exact[where m = n and k = 0])
  show "real_of_int n = of_int n * 2 powr of_int 0" by simp
  show "\<bar>n\<bar> < 2 ^ 53" by (rule assms)
  show "2 - 1024 - int 53 + 1 \<le> (0::int)" by simp
  have "real_of_int \<bar>n\<bar> < real_of_int (2 ^ 53)" using assms by (simp only: of_int_less_iff)
  also have "\<dots> \<le> 2 powr of_int 1024"
  proof -
    have "(2::real) powr of_int 1024 = 2 ^ 1024" by (simp add: powr_realpow[symmetric])
    moreover have "(2::real) ^ 53 \<le> 2 ^ 1024" by (rule power_increasing) simp_all
    ultimately show ?thesis by simp
  qed
  finally show "\<bar>real_of_int n\<bar> < 2 powr of_int 1024" by simp
qed

lemma round_double_small:
  "round_double 1 = Num 1" "round_double 2 = Num 2" "round_double (- 1) = Num (- 1)"
  using round_double_of_int[of 1] round_double_of_int[of 2] round_double_of_int[of "- 1"]
  by simp_all

lemma tiny_positive: "0 < tiny" "tiny \<noteq> 0" "\<not> tiny < 0" "\<bar>tiny\<bar> = tiny"
  by (simp_all add: tiny_def)

lemma huge_positive: "0 < huge" "huge \<noteq> 0"
  by (simp_all add: huge_def)

lemma round_double_tiny: "round_double tiny = Num tiny" "round_double (- tiny) = Num (- tiny)"
proof -
  have "(2::real) powr (- 1070) < 2 powr of_int 1024"
    by (rule powr_less_mono) simp_all
  then have b: "\<bar>tiny\<bar> < 2 powr of_int 1024" "\<bar>- tiny\<bar> < 2 powr of_int 1024"
    by (simp_all only: tiny_def abs_minus_cancel abs_of_pos powr_gt_zero)
  show "round_double tiny = Num tiny"
    unfolding round_double_def
    by (rule round_format_exact[where m = 1 and k = "- 1070"])
       (use b(1) in \<open>simp_all add: tiny_def del: powr_numeral\<close>)
  show "round_double (- tiny) = Num (- tiny)"
    unfolding round_double_def
    by (rule round_format_exact[where m = "- 1" and k = "- 1070"])
       (use b(2) in \<open>simp_all add: tiny_def del: powr_numeral\<close>)
qed

lemma round_double_huge: "round_double huge = Num huge"
  unfolding round_double_def
  by (rule round_format_exact[where m = 1 and k = 1023]) (simp_all add: huge_def)

lemma round_double_overflow:
  "round_double (1 / tiny) = PosInf" "round_double (huge + huge) = PosInf"
  "round_double (2 * huge) = PosInf"
proof -
  have "1 / tiny = 2 powr 1070" by (simp add: tiny_def powr_minus_divide)
  then have "2 powr of_int 1024 \<le> 1 / tiny" by simp
  then show "round_double (1 / tiny) = PosInf"
    unfolding round_double_def by (rule round_format_overflow) simp_all
  have "huge + huge = 2 powr (1 + 1023)" unfolding huge_def powr_add by simp
  then have "2 powr of_int 1024 \<le> huge + huge" by simp
  then show h: "round_double (huge + huge) = PosInf"
    unfolding round_double_def by (rule round_format_overflow) simp_all
  have "2 * huge = huge + huge" by simp
  then show "round_double (2 * huge) = PosInf" using h by (simp only:)
qed

subsection \<open>Evaluation\<close>

text \<open>The equations that run the kernel in double precision on the inputs above.\<close>

lemmas fl_unfold = fl_advect_streamline_def fl_advect_loop.simps fl_advect_body_def
  fl_cell_velocity_def fgetitem3_def fgetitem2_def norm_index_def fl_advance_position_def
  fl_delta_time_def fl_div_def fl_sub_def fl_min_def fl_apply_boundary_def fl_mod_def
  fmod_real_def fl_taper_pixel_contribution_def fl_initial_state_def fl_of_int_def np_pi_def
  signed_inf_def Let_def tiny_vfield_def unit_vfield_def one_sfield_def huge_sfield_def
  round_double_zero round_double_small round_double_tiny round_double_huge
  round_double_overflow tiny_positive huge_positive

section \<open>The claims\<close>





text \<open>
  C3. The program breaks the claim by an overflow. On the grid of one cell whose component 1
  is zero and whose component 0 is the double \<open>2 ^ -1070\<close>, the engine reads component 0
  as the velocity along the columns and component 1 as the velocity along the rows, as the
  claim says. But the crossing time of the column axis, \<open>1 / 2 ^ -1070\<close>, is beyond the
  largest double and is \<open>+infinity\<close>; the step time is infinite, and the row advances by
  \<open>0 * infinity\<close>, which is NaN. Under open boundaries the loop returns with the row
  coordinate NaN, though it started at 0 and component 1 is zero everywhere.
\<close>

theorem zero_row_component_row_becomes_nan:
  "fdata3 tiny_vfield 1 0 0 = Num 0
   \<and> fl_row (fl_initial_state 0 0) = Num 0
   \<and> fl_cell_velocity tiny_vfield 1 0 0 = Inr (Num tiny, Num 0)
   \<and> fl_advance_position (Num 0) (Num 0) (Num 0) (Num tiny) = Inr (NaN, PosInf)
   \<and> fl_advect_loop tiny_vfield one_sfield 1 2 False 0 (fl_initial_state 0 0)
       = Inr \<lparr>fl_row = NaN, fl_col = PosInf, fl_weighted_sum = Num 0, fl_total_weight = Num 0\<rparr>"
  by (simp add: fl_unfold)

text \<open>
  C4. The program breaks the claim by the same overflow. On that grid under periodic
  boundaries the first step leaves the position at \<open>(NaN, infinity)\<close>; the wrap of lines 65
  and 66 turns both coordinates into NaN and the body goes on to its last line. The
  position is then not in \<open>[0,R) \<times> [0,C)\<close>, and the second step has no cell index to
  sample: the conversion of \<open>floor(NaN)\<close> to an integer fails (it raises in Python; the
  compiled function indexes the array with whatever the conversion leaves, unchecked). The
  test of line 69 stops the loop on such a position under open boundaries; the periodic
  branch has no test.
\<close>

theorem periodic_wrap_keeps_nan:
  "fl_advect_body tiny_vfield one_sfield 1 2 True 0 (fl_initial_state 0 0)
     = Inr (FNext \<lparr>fl_row = NaN, fl_col = NaN,
                   fl_weighted_sum = Num 1, fl_total_weight = Num 1\<rparr>)
   \<and> \<not> (fl_le (Num 0) NaN \<and> fl_less NaN (fl_of_int 1))
   \<and> fl_to_int (fl_floor NaN) = Inl NonFinite
   \<and> fl_advect_streamline tiny_vfield one_sfield 0 0 1 2 True = Inl NonFinite"
  by (simp add: fl_unfold)



text \<open>
  C6. The program breaks the claim by the same overflow. In the backward direction on that
  grid exactly one velocity component is zero. The crossing time of its axis is
  \<open>+infinity\<close>, as the claim says, but the time of the other axis, \<open>-1 / -(2 ^ -1070)\<close>,
  is \<open>+infinity\<close> too, not finite; the minimum of the two is infinite, the advanced
  position is \<open>(NaN, -infinity)\<close>, and the call ends in a failure instead of a result.
\<close>

theorem nonzero_axis_time_overflows:
  "fl_cell_velocity tiny_vfield (- 1) 0 0 = Inr (Num (- tiny), Num 0)
   \<and> fl_delta_time (Num 0) (Num 0) = Inr PosInf
   \<and> fl_delta_time (Num 0) (Num (- tiny)) = Inr PosInf
   \<and> fl_min PosInf PosInf = PosInf
   \<and> fl_advance_position (Num 0) (Num 0) (Num 0) (Num (- tiny)) = Inr (NaN, NegInf)
   \<and> fl_advect_body tiny_vfield one_sfield (- 1) 2 True 0 (fl_initial_state 0 0)
       = Inr (FNext \<lparr>fl_row = NaN, fl_col = NaN,
                     fl_weighted_sum = Num 1, fl_total_weight = Num 1\<rparr>)
   \<and> fl_advect_streamline tiny_vfield one_sfield 0 0 (- 1) 2 True = Inl NonFinite"
  by (simp add: fl_unfold)

text \<open>
  C7. For a grid of any shape, if the vector field is zero at every cell or if
  \<open>streamlength = 0\<close>, then every call of the engine seeded inside the grid, in either
  direction and in either boundary mode, returns weighted sum 0 and total weight 0, and
  every pixel of the output of the kernel is 0.
\<close>

theorem zero_field_or_length_gives_zeros:
  assumes wf: "well_formed vfield sfield_in R C"
    and sh: "shape2 sfield_out = (R, C)"
    and zero: "(\<forall>r<R. \<forall>c<C. data3 vfield 0 r c = 0 \<and> data3 vfield 1 r c = 0) \<or> streamlength = 0"
  shows "(\<forall>row col dir_sgn. 0 \<le> row \<and> row < int R \<and> 0 \<le> col \<and> col < int C \<longrightarrow>
            advect_streamline vfield sfield_in row col dir_sgn streamlength per = Inr (0, 0))
       \<and> (\<exists>out. compute_lic_kernel vfield sfield_in sfield_out streamlength (int R) (int C) per
                   = Inr out
              \<and> shape2 out = (R, C)
              \<and> (\<forall>i<R. \<forall>j<C. data2 out i j = 0))"
proof (intro conjI)
  show adv: "\<forall>row col dir_sgn. 0 \<le> row \<and> row < int R \<and> 0 \<le> col \<and> col < int C \<longrightarrow>
            advect_streamline vfield sfield_in row col dir_sgn streamlength per = Inr (0, 0)"
    using advect_streamline_nothing[OF wf _ _ _ _ zero] by blast
  obtain out where o:
    "compute_lic_kernel vfield sfield_in sfield_out streamlength (int R) (int C) per = Inr out"
    "shape2 out = (R, C)"
    "\<forall>i<R. \<forall>j<C. lic_pixel vfield sfield_in streamlength per (int i) (int j)
                               = Inr (data2 out i j)"
    using compute_lic_kernel_result[OF wf sh, of streamlength per] by blast
  have "data2 out i j = 0" if "i < R" "j < C" for i j
  proof -
    have s: "0 \<le> int i \<and> int i < int R \<and> 0 \<le> int j \<and> int j < int C" using that by simp
    have "lic_pixel vfield sfield_in streamlength per (int i) (int j) = Inr 0"
      using adv s by (simp add: lic_pixel_def)
    then show ?thesis using o(3) that by auto
  qed
  then show "\<exists>out. compute_lic_kernel vfield sfield_in sfield_out streamlength (int R) (int C) per
                   = Inr out
              \<and> shape2 out = (R, C)
              \<and> (\<forall>i<R. \<forall>j<C. data2 out i j = 0)"
    using o(1,2) by blast
qed

theorem zero_field_or_length_gives_zeros_witness:
  "(well_formed zero_vfield column_sfield 4 4 \<and> shape2 (zeros 4 4) = (4, 4)
     \<and> ((\<forall>r<4. \<forall>c<4. data3 zero_vfield 0 r c = 0 \<and> data3 zero_vfield 1 r c = 0) \<or> (2::int) = 0)
     \<and> advect_streamline zero_vfield column_sfield 2 3 1 2 False = Inr (0, 0)
     \<and> (\<exists>out. compute_lic_kernel zero_vfield column_sfield (zeros 4 4) 2 (int 4) (int 4) False
                 = Inr out
            \<and> shape2 out = (4, 4) \<and> (\<forall>i<4. \<forall>j<4. data2 out i j = 0)))
   \<and> (well_formed uniform_vfield column_sfield 4 4
     \<and> ((\<forall>r<4. \<forall>c<4. data3 uniform_vfield 0 r c = 0 \<and> data3 uniform_vfield 1 r c = 0)
        \<or> (0::int) = 0)
     \<and> advect_streamline uniform_vfield column_sfield 2 3 (- 1) 0 True = Inr (0, 0)
     \<and> (\<exists>out. compute_lic_kernel uniform_vfield column_sfield (zeros 4 4) 0 (int 4) (int 4) True
                 = Inr out
            \<and> shape2 out = (4, 4) \<and> (\<forall>i<4. \<forall>j<4. data2 out i j = 0)))"
proof -
  have sh: "shape2 (zeros 4 4) = (4, 4)" by (simp add: zeros_def)
  have z1: "(\<forall>r<4. \<forall>c<4. data3 zero_vfield 0 r c = 0 \<and> data3 zero_vfield 1 r c = 0) \<or> (2::int) = 0"
    by (simp add: zero_vfield_def)
  have z2: "(\<forall>r<4. \<forall>c<4. data3 uniform_vfield 0 r c = 0 \<and> data3 uniform_vfield 1 r c = 0)
        \<or> (0::int) = 0"
    by simp
  have s: "(0::int) \<le> 2 \<and> (2::int) < int 4 \<and> (0::int) \<le> 3 \<and> (3::int) < int 4" by simp
  note a = zero_field_or_length_gives_zeros[OF example_well_formed(2) sh z1, of False]
  note b = zero_field_or_length_gives_zeros[OF example_well_formed(1) sh z2, of True]
  show ?thesis
    using a b s sh z1 z2 example_well_formed by blast
qed

text \<open>
  C8. The output is a function of the inputs alone. Whatever the order in which the pixel
  tasks run (any list of tasks that covers exactly the pixels of the grid, each once or
  more), the run returns the same array as the two nested loops in program order; and each
  pixel of that array is the value \<open>lic_pixel\<close> of its own coordinates, which depends only on
  the vector field, the scalar field, the streamlength and the boundary mode, and neither on
  the other pixels nor on the content of the output buffer.
\<close>

theorem output_independent_of_schedule:
  assumes wf: "well_formed vfield sfield_in R C"
    and sh: "shape2 sfield_out = (R, C)"
    and tasks: "set tasks = {0..<int R} \<times> {0..<int C}"
  shows "run_tasks vfield sfield_in streamlength per tasks sfield_out
           = compute_lic_kernel vfield sfield_in sfield_out streamlength (int R) (int C) per
       \<and> (\<exists>out. run_tasks vfield sfield_in streamlength per tasks sfield_out = Inr out
              \<and> shape2 out = (R, C)
              \<and> (\<forall>i<R. \<forall>j<C. lic_pixel vfield sfield_in streamlength per (int i) (int j)
                                 = Inr (data2 out i j)))"
proof -
  have t: "\<forall>(r, c) \<in> set tasks. 0 \<le> r \<and> r < int R \<and> 0 \<le> c \<and> c < int C"
    using tasks by auto
  have same: "set tasks = set (List.product [0..int R - 1] [0..int C - 1])"
    using tasks grid_tasks by simp
  have eq: "run_tasks vfield sfield_in streamlength per tasks sfield_out
           = compute_lic_kernel vfield sfield_in sfield_out streamlength (int R) (int C) per"
    unfolding compute_lic_kernel_def by (rule run_tasks_order[OF wf sh t same])
  then show ?thesis
    using compute_lic_kernel_result[OF wf sh, of streamlength per] by simp
qed

theorem output_independent_of_schedule_witness:
  "well_formed uniform_vfield column_sfield 4 4 \<and> shape2 (zeros 4 4) = (4, 4)
   \<and> set (rev (List.product [0..int 4 - 1] [0..int 4 - 1])) = {0..<int 4} \<times> {0..<int 4}
   \<and> run_tasks uniform_vfield column_sfield 2 True
         (rev (List.product [0..int 4 - 1] [0..int 4 - 1])) (zeros 4 4)
       = compute_lic_kernel uniform_vfield column_sfield (zeros 4 4) 2 (int 4) (int 4) True
   \<and> (\<exists>out. run_tasks uniform_vfield column_sfield 2 True
                (rev (List.product [0..int 4 - 1] [0..int 4 - 1])) (zeros 4 4) = Inr out
          \<and> shape2 out = (4, 4)
          \<and> (\<forall>i<4. \<forall>j<4. lic_pixel uniform_vfield column_sfield 2 True (int i) (int j)
                             = Inr (data2 out i j)))"
proof -
  have sh: "shape2 (zeros 4 4) = (4, 4)" by (simp add: zeros_def)
  have t: "set (rev (List.product [0..int 4 - 1] [0..int 4 - 1])) = {0..<int 4} \<times> {0..<int 4}"
    by (simp only: set_rev grid_tasks)
  show ?thesis
    using output_independent_of_schedule[OF example_well_formed(1) sh t, of 2 True]
      example_well_formed(1) sh t
    by blast
qed

text \<open>
  C9. The weighting function is \<open>taper(streamlength, step) = 0.5 * (1 + cos(pi * step /
  streamlength))\<close>. For every streamlength of at least 1 it is 1 at step 0, it decreases
  strictly as the step grows from 0 up to the streamlength, where it is 0, and so it lies in
  \<open>(0, 1]\<close> on the steps below the streamlength.
\<close>

theorem taper_cosine_decreasing:
  assumes "1 \<le> streamlength"
  shows "(\<forall>step. taper_pixel_contribution streamlength step =
            Inr (0.5 * (1 + cos (pi * of_int step / of_int streamlength))))
       \<and> taper_pixel_contribution streamlength 0 = Inr 1
       \<and> (\<forall>s t. 0 \<le> s \<and> s < t \<and> t \<le> streamlength \<longrightarrow>
            (\<exists>a b. taper_pixel_contribution streamlength s = Inr a
                 \<and> taper_pixel_contribution streamlength t = Inr b \<and> b < a))
       \<and> (\<forall>s. 0 \<le> s \<and> s < streamlength \<longrightarrow>
            (\<exists>a. taper_pixel_contribution streamlength s = Inr a \<and> 0 < a \<and> a \<le> 1))
       \<and> taper_pixel_contribution streamlength streamlength = Inr 0"
proof -
  have nz: "streamlength \<noteq> 0" using assms by simp
  have L: "0 < (of_int streamlength :: real)" using assms by simp
  have formula: "taper_pixel_contribution streamlength step =
      Inr (0.5 * (1 + cos (pi * of_int step / of_int streamlength)))" for step
    by (rule taper_value[OF nz])
  have at0: "taper_pixel_contribution streamlength 0 = Inr 1"
    by (simp add: formula)
  have atL: "taper_pixel_contribution streamlength streamlength = Inr 0"
    using nz by (simp add: formula)
  have mono: "\<exists>a b. taper_pixel_contribution streamlength s = Inr a
                 \<and> taper_pixel_contribution streamlength t = Inr b \<and> b < a"
    if st: "0 \<le> s \<and> s < t \<and> t \<le> streamlength" for s t
  proof -
    define x where "x = pi * of_int s / of_int streamlength"
    define y where "y = pi * of_int t / of_int streamlength"
    have x0: "0 \<le> x" using st L by (simp add: x_def)
    have "real_of_int s / of_int streamlength < of_int t / of_int streamlength"
      using st L by (simp add: divide_strict_right_mono)
    then have "pi * (of_int s / of_int streamlength) < pi * (of_int t / of_int streamlength)"
      by (simp only: mult_less_cancel_left_pos pi_gt_zero)
    then have xy: "x < y" by (simp add: x_def y_def)
    have "real_of_int t / of_int streamlength \<le> 1" using st L by simp
    then have "pi * (of_int t / of_int streamlength) \<le> pi * 1"
      by (simp only: mult_le_cancel_left_pos pi_gt_zero)
    then have ypi: "y \<le> pi" by (simp add: y_def)
    have "cos y < cos x" using cos_monotone_0_pi[OF x0 xy ypi] .
    then have lt: "0.5 * (1 + cos y) < 0.5 * (1 + cos x)" by simp
    have "taper_pixel_contribution streamlength s = Inr (0.5 * (1 + cos x))"
      "taper_pixel_contribution streamlength t = Inr (0.5 * (1 + cos y))"
      using formula[of s] formula[of t] by (simp_all add: x_def y_def)
    with lt show ?thesis by blast
  qed
  have pos: "\<exists>a. taper_pixel_contribution streamlength s = Inr a \<and> 0 < a \<and> a \<le> 1"
    if "0 \<le> s \<and> s < streamlength" for s
    using taper_positive[of s streamlength] that by simp
  show ?thesis using formula at0 atL mono pos by blast
qed

theorem taper_cosine_decreasing_witness:
  "(1::int) \<le> 2 \<and> taper_pixel_contribution 2 0 = Inr 1
   \<and> (\<exists>a b. taper_pixel_contribution 2 0 = Inr a \<and> taper_pixel_contribution 2 1 = Inr b \<and> b < a)
   \<and> taper_pixel_contribution 2 2 = Inr 0"
proof -
  have h: "(1::int) \<le> 2" by simp
  have "0 \<le> (0::int) \<and> (0::int) < 1 \<and> (1::int) \<le> 2" by simp
  then show ?thesis using h taper_cosine_decreasing[OF h] by blast
qed




end
